theory Spec2Isabelle
  imports Main "HOL-Library.Sublist"
begin

section \<open>Python strings\<close>

text \<open>
  A Python \<open>str\<close> is a sequence of Unicode code points, and \<open>len\<close>, \<open>find\<close> and slicing
  count code points. A string is therefore a list of code points, each a natural number;
  \<open>str\<close> turns an ASCII literal into one. The string operations themselves do not look
  inside a code point and are written for lists of any element type.
\<close>

type_synonym pystr = "nat list"

definition str :: "string \<Rightarrow> pystr" where
  "str s = map of_char s"

definition nl :: pystr where
  "nl = [10]"

definition apostrophe :: pystr where
  "apostrophe = [39]"

definition backslash :: pystr where
  "backslash = [92]"

definition check_mark :: pystr where
  "check_mark = [0x2705]"

definition rightwards_arrow :: pystr where
  "rightwards_arrow = [0x2192]"

subsection \<open>\<open>str.find\<close>\<close>

text \<open>
  \<open>s.find(sub)\<close> is the lowest index at which \<open>sub\<close> occurs in \<open>s\<close>, and \<open>-1\<close> when it
  occurs nowhere. The empty string occurs at index 0 of every string.
\<close>

fun find_from :: "'a list \<Rightarrow> 'a list \<Rightarrow> nat \<Rightarrow> int" where
  "find_from sub [] k = (if sub = [] then int k else - 1)"
| "find_from sub (c # cs) k =
     (if prefix sub (c # cs) then int k else find_from sub cs (Suc k))"

definition py_find :: "'a list \<Rightarrow> 'a list \<Rightarrow> int" where
  "py_find s sub = find_from sub s 0"

subsection \<open>Slices\<close>

text \<open>
  \<open>s[:i]\<close> and \<open>s[i:]\<close>. A negative index counts from the end of the string, and an
  index beyond either end is clipped to it.
\<close>

definition slice_to :: "'a list \<Rightarrow> int \<Rightarrow> 'a list" where
  "slice_to s i = (if i < 0 then take (nat (int (length s) + i)) s else take (nat i) s)"

definition slice_from :: "'a list \<Rightarrow> int \<Rightarrow> 'a list" where
  "slice_from s i = (if i < 0 then drop (nat (int (length s) + i)) s else drop (nat i) s)"

subsection \<open>\<open>str.replace\<close>\<close>

text \<open>
  \<open>s.replace(old, new)\<close>, called without a count, scans \<open>s\<close> from the left: where \<open>old\<close>
  starts, \<open>new\<close> is emitted and the scan resumes behind that occurrence; elsewhere one
  character is copied. An empty \<open>old\<close> occurs before every character and at the end.
\<close>

fun interleave :: "'a list \<Rightarrow> 'a list \<Rightarrow> 'a list" where
  "interleave new [] = new"
| "interleave new (c # cs) = new @ c # interleave new cs"

function py_replace :: "'a list \<Rightarrow> 'a list \<Rightarrow> 'a list \<Rightarrow> 'a list" where
  "py_replace s old new =
     (if old = [] then interleave new s
      else if prefix old s then new @ py_replace (drop (length old) s) old new
      else (case s of [] \<Rightarrow> [] | c # cs \<Rightarrow> c # py_replace cs old new))"
  by pat_completeness auto
termination
  by (relation "measure (\<lambda>(s, old, new). length s)") (auto simp: prefix_def)

declare py_replace.simps [simp del]

subsection \<open>\<open>re.sub\<close>\<close>

text \<open>
  The script hands \<open>re.sub\<close> a pattern made of ordinary characters and an escaped dot.
  The model covers the patterns built from ordinary characters, escaped punctuation and
  the dot, which all match exactly one character each, and replacement templates without
  a backslash, which stand for themselves. A pattern that ends in a lone backslash does
  not compile. Everything else (repetition, groups, classes, anchors, letter and digit
  escapes, templates with escapes) is answered \<open>Unmodelled\<close>: the model says nothing
  about it.
\<close>

datatype error = IOError | PatternError | Unmodelled

datatype atom = Lit nat | AnyChar

definition metachars :: pystr where
  "metachars = str ''^$*+?{}[]|()''"

definition is_alnum :: "nat \<Rightarrow> bool" where
  "is_alnum c = ((48 \<le> c \<and> c \<le> 57) \<or> (65 \<le> c \<and> c \<le> 90) \<or> (97 \<le> c \<and> c \<le> 122))"

fun cons_atom :: "atom \<Rightarrow> error + atom list \<Rightarrow> error + atom list" where
  "cons_atom a (Inl e) = Inl e"
| "cons_atom a (Inr as) = Inr (a # as)"

fun re_compile :: "pystr \<Rightarrow> error + atom list" where
  "re_compile [] = Inr []"
| "re_compile [c] =
     (if c = 92 then Inl PatternError
      else if c \<in> set metachars then Inl Unmodelled
      else Inr [if c = 46 then AnyChar else Lit c])"
| "re_compile (c # e # rest) =
     (if c = 92 then (if is_alnum e then Inl Unmodelled else cons_atom (Lit e) (re_compile rest))
      else if c \<in> set metachars then Inl Unmodelled
      else cons_atom (if c = 46 then AnyChar else Lit c) (re_compile (e # rest)))"

fun atom_ok :: "atom \<Rightarrow> nat \<Rightarrow> bool" where
  "atom_ok (Lit x) c = (c = x)"
| "atom_ok AnyChar c = (c \<noteq> 10)"

fun match_here :: "atom list \<Rightarrow> pystr \<Rightarrow> bool" where
  "match_here [] s = True"
| "match_here (a # as) [] = False"
| "match_here (a # as) (c # cs) = (atom_ok a c \<and> match_here as cs)"

function sub_scan :: "atom list \<Rightarrow> pystr \<Rightarrow> pystr \<Rightarrow> pystr" where
  "sub_scan p repl s =
     (if p = [] then interleave repl s
      else if match_here p s then repl @ sub_scan p repl (drop (length p) s)
      else (case s of [] \<Rightarrow> [] | c # cs \<Rightarrow> c # sub_scan p repl cs))"
  by pat_completeness auto

termination
proof (relation "measure (\<lambda>(p, repl, s). length s)")
  have len: "match_here p s \<Longrightarrow> length p \<le> length s" for p s
    by (induction p s rule: match_here.induct) auto
  show "((p, repl, drop (length p) s), (p, repl, s)) \<in> measure (\<lambda>(p, repl, s). length s)"
    if "p \<noteq> []" and "match_here p s" for p repl s
    using that len [of p s] by (cases p) auto
qed auto

declare sub_scan.simps [simp del]

definition re_sub :: "pystr \<Rightarrow> pystr \<Rightarrow> pystr \<Rightarrow> error + pystr" where
  "re_sub pattern repl s =
     (case re_compile pattern of
        Inl e \<Rightarrow> Inl e
      | Inr p \<Rightarrow> if 92 \<in> set repl then Inl Unmodelled else Inr (sub_scan p repl s))"


section \<open>Files and processes\<close>

text \<open>
  The file system maps a path to the characters stored in the file there (its bytes,
  decoded as UTF-8). A path outside the domain stands for a file that cannot be opened
  or decoded; opening it for reading raises an exception, \<open>IOError\<close>, which the scripts
  do not catch.

  Both scripts open their file in text mode. Reading in text mode translates line
  ends: \<open>f.read()\<close> returns the stored characters with every carriage return followed by a
  line feed, and every other carriage return, turned into one line feed. Writing in text
  mode stores the text as it is where the line separator of the system is the line
  feed, which is the system modelled here. Opening a file for writing and writing it is
  one step that puts the new text in place of the old; a write that fails or breaks off
  half way is not modelled. Standard output takes every string.

  A script ends by running off its end (exit status 0), by \<open>exit(n)\<close>, or by an exception
  nobody catches. A run is the file system it leaves behind, the lines it printed and
  how it ended.
\<close>

type_synonym fs = "string \<rightharpoonup> pystr"

fun universal_newlines :: "pystr \<Rightarrow> pystr" where
  "universal_newlines [] = []"
| "universal_newlines [c] = [if c = 13 then 10 else c]"
| "universal_newlines (c # d # cs) =
     (if c = 13 then (if d = 10 then 10 # universal_newlines cs
                      else 10 # universal_newlines (d # cs))
      else c # universal_newlines (d # cs))"

definition read_text :: "fs \<Rightarrow> string \<Rightarrow> pystr option" where
  "read_text fs path = map_option universal_newlines (fs path)"

definition write_text :: "fs \<Rightarrow> string \<Rightarrow> pystr \<Rightarrow> fs" where
  "write_text fs path content = fs(path \<mapsto> content)"

datatype ending = Exit int | Uncaught error

record run =
  files :: fs
  stdout :: "pystr list"
  status :: ending

section \<open>apply-fixes.py\<close>

definition FIXES_FILE_PATH :: string where
  "FIXES_FILE_PATH = ''packages/sql-delegation/src/postgresql-module.ts''"

definition FIX3_OLD :: pystr where
  "FIX3_OLD =
       str ''  /** Required claim in TE-JWT (e.g., legacy_name) */'' @ nl
     @ str ''  requiredClaim?: string;'' @ nl
     @ nl
     @ str ''  /** Token cache configuration */''"

definition FIX3_NEW :: pystr where
  "FIX3_NEW =
       str ''  /** Required claim in TE-JWT (e.g., legacy_name) */'' @ nl
     @ str ''  requiredClaim?: string;'' @ nl
     @ nl
     @ str ''  /** Roles claim path in TE-JWT (default: '' @ apostrophe @ str ''roles'' @ apostrophe @ str '') */'' @ nl
     @ str ''  rolesClaim?: string;'' @ nl
     @ nl
     @ str ''  /** Token cache configuration */''"

definition FIX1_OLD :: pystr where
  "FIX1_OLD =
       str ''        // Use claim value as legacy username'' @ nl
     @ str ''        effectiveLegacyUsername = claimValue as string;'' @ nl
     @ nl
     @ str ''        console.log('' @ apostrophe @ str ''[PostgreSQLModule] Token exchange successful:'' @ apostrophe @ str '', {'' @ nl
     @ str ''          legacyUsername: effectiveLegacyUsername,'' @ nl
     @ str ''          idpName: this.tokenExchangeConfig.idpName,'' @ nl
     @ str ''        });''"

definition FIX1_NEW :: pystr where
  "FIX1_NEW =
       str ''        // Use claim value as legacy username'' @ nl
     @ str ''        effectiveLegacyUsername = claimValue as string;'' @ nl
     @ nl
     @ str ''        // Extract roles from TE-JWT (may be in '' @ apostrophe @ str ''roles'' @ apostrophe @ str '', '' @ apostrophe @ str ''user_roles'' @ apostrophe @ str '', or other claim)'' @ nl
     @ str ''        const rolesClaimPath = this.tokenExchangeConfig.rolesClaim || '' @ apostrophe @ str ''roles'' @ apostrophe @ str '';'' @ nl
     @ str ''        const teRoles = (Array.isArray(teClaims?.[rolesClaimPath])'' @ nl
     @ str ''          ? teClaims[rolesClaimPath]'' @ nl
     @ str ''          : []) as string[];'' @ nl
     @ nl
     @ str ''        console.log('' @ apostrophe @ str ''[PostgreSQLModule] Token exchange successful:'' @ apostrophe @ str '', {'' @ nl
     @ str ''          legacyUsername: effectiveLegacyUsername,'' @ nl
     @ str ''          roles: teRoles,'' @ nl
     @ str ''          rolesClaimPath,'' @ nl
     @ str ''          idpName: this.tokenExchangeConfig.idpName,'' @ nl
     @ str ''        });''"

definition FIX2_PATTERN :: pystr where
  "FIX2_PATTERN = str ''tokenExchangeUsed: !!this'' @ backslash @ str ''.tokenExchangeService''"

definition FIX2_REPL :: pystr where
  "FIX2_REPL = str ''tokenExchangeUsed: !!this.tokenExchangeConfig''"

definition FIXES_DONE_MSG :: pystr where
  "FIXES_DONE_MSG = check_mark @ str '' All 3 fixes applied successfully!''"

definition FIX1_MSG :: pystr where
  "FIX1_MSG = str ''   Fix #1: Added role extraction from TE-JWT''"

definition FIX2_MSG :: pystr where
  "FIX2_MSG = str ''   Fix #2: Fixed this.tokenExchangeService '' @ rightwards_arrow @ str '' this.tokenExchangeConfig''"

definition FIX3_MSG :: pystr where
  "FIX3_MSG = str ''   Fix #3: Added rolesClaim field to TokenExchangeConfig interface''"

text \<open>The two literal replacements, in the order the script applies them.\<close>

definition literal_fixes :: "pystr \<Rightarrow> pystr" where
  "literal_fixes content =
     py_replace (py_replace content FIX3_OLD FIX3_NEW) FIX1_OLD FIX1_NEW"

text \<open>
  The script reads the file, applies fix 3, fix 1 and the regular-expression fix 2 to the
  text in memory, writes the result back and prints four lines. Its body is written
  over the pattern of fix 2, so that the step that compiles the pattern has both its
  outcomes; \<open>apply_fixes_main\<close> is the script, with its own pattern.
\<close>

definition apply_fixes :: "pystr \<Rightarrow> fs \<Rightarrow> run" where
  "apply_fixes pattern fs =
     (case read_text fs FIXES_FILE_PATH of
        None \<Rightarrow> \<lparr>files = fs, stdout = [], status = Uncaught IOError\<rparr>
      | Some content \<Rightarrow>
          (case re_sub pattern FIX2_REPL (literal_fixes content) of
             Inl e \<Rightarrow> \<lparr>files = fs, stdout = [], status = Uncaught e\<rparr>
           | Inr content' \<Rightarrow>
               \<lparr>files = write_text fs FIXES_FILE_PATH content',
                stdout = [FIXES_DONE_MSG, FIX1_MSG, FIX2_MSG, FIX3_MSG],
                status = Exit 0\<rparr>))"

definition apply_fixes_main :: "fs \<Rightarrow> run" where
  "apply_fixes_main fs = apply_fixes FIX2_PATTERN fs"

section \<open>update-doc.py\<close>

definition DOC_FILE_PATH :: string where
  "DOC_FILE_PATH = ''Docs/Token-Exchange.md''"

definition PHASE_72_DOC :: pystr where
  "PHASE_72_DOC =
       nl
     @ str ''### Phase 7.2: Fix Undefined teRoles Variable - COMPLETED (2025-01-06)'' @ nl
     @ nl
     @ str ''**Problem:** Runtime error `ReferenceError: teRoles is not defined` in PostgreSQL module'' @ nl
     @ nl
     @ str ''**Root Cause:** After token exchange completed and `legacy_name` was extracted from TE-JWT (line 369), the code forgot to extract the `roles` claim from the same TE-JWT before using it on lines 419-420.'' @ nl
     @ nl
     @ str ''**Solution:** Extract roles from TE-JWT after extracting legacy username'' @ nl
     @ nl
     @ str ''**Changes Made:**'' @ nl
     @ str ''- [x] Added `rolesClaim?: string` field to `TokenExchangeConfig` interface (line 50-51)'' @ nl
     @ str ''- [x] Added role extraction logic after line 369 (5 lines of code):'' @ nl
     @ str ''  ```typescript'' @ nl
     @ str ''  // Extract roles from TE-JWT (may be in '' @ apostrophe @ str ''roles'' @ apostrophe @ str '', '' @ apostrophe @ str ''user_roles'' @ apostrophe @ str '', or other claim)'' @ nl
     @ str ''  const rolesClaimPath = this.tokenExchangeConfig.rolesClaim || '' @ apostrophe @ str ''roles'' @ apostrophe @ str '';'' @ nl
     @ str ''  const teRoles = (Array.isArray(teClaims?.[rolesClaimPath])'' @ nl
     @ str ''    ? teClaims[rolesClaimPath]'' @ nl
     @ str ''    : []) as string[];'' @ nl
     @ str ''  ```'' @ nl
     @ str ''- [x] Updated console.log to show extracted roles (lines 374-378)'' @ nl
     @ str ''- [x] Fixed incorrect `this.tokenExchangeService` references '' @ rightwards_arrow @ str '' `this.tokenExchangeConfig` (lines 456, 473)'' @ nl
     @ nl
     @ str ''**Files Changed:**'' @ nl
     @ str ''- `packages/sql-delegation/src/postgresql-module.ts` - 3 fixes applied (~15 lines changed)'' @ nl
     @ nl
     @ str ''**Design Alignment:**'' @ nl
     @ str ''This fix implements the missing role extraction specified in the design document (Unified OAuth & Token Exchange Implementation plan.md lines 523-527):'' @ nl
     @ nl
     @ str ''```typescript'' @ nl
     @ str ''// CRITICAL: Decode TE-JWT for legacy authorization'' @ nl
     @ str ''const delegationClaims = decodeJWT(delegationToken);'' @ nl
     @ nl
     @ str ''// Extract TE-JWT authorization (NOT requestor JWT!)'' @ nl
     @ str ''const legacyUsername = delegationClaims.legacy_name;      // '' @ check_mark @ str '' Already implemented'' @ nl
     @ str ''const legacyRoles = delegationClaims.roles || [];         // '' @ check_mark @ str '' FIXED in Phase 7.2'' @ nl
     @ str ''const legacyPermissions = delegationClaims.permissions || []; // Can be added later'' @ nl
     @ str ''```'' @ nl
     @ nl
     @ str ''**Build Verification:** '' @ check_mark @ str '' All builds successful after fix'' @ nl
     @ str ''- Core: '' @ check_mark @ str '' (61ms)'' @ nl
     @ str ''- @mcp-oauth/sql-delegation: '' @ check_mark @ str '' (11ms)'' @ nl
     @ nl
     @ str ''**Security Impact:** '' @ check_mark @ str '' POSITIVE - TE-JWT roles now properly extracted and used for SQL authorization'' @ nl
     @ nl
     @ str ''---'' @ nl
     @ nl"

text \<open>
  The string the script searches for, and the two pieces of it between which the script
  puts the documentation block.
\<close>

definition ANCHOR :: pystr where
  "ANCHOR =
       str ''**Build Verification:** '' @ check_mark @ str '' All builds successful after fix'' @ nl
     @ nl
     @ str ''---'' @ nl
     @ nl
     @ str ''## Key Decisions''"

definition ANCHOR_HEAD :: pystr where
  "ANCHOR_HEAD =
       str ''**Build Verification:** '' @ check_mark @ str '' All builds successful after fix'' @ nl
     @ nl
     @ str ''---'' @ nl"

definition ANCHOR_TAIL :: pystr where
  "ANCHOR_TAIL =
       nl
     @ str ''## Key Decisions''"

definition ERROR_MSG :: pystr where
  "ERROR_MSG = str ''ERROR: Could not find insertion point''"

definition SUCCESS_MSG :: pystr where
  "SUCCESS_MSG = str ''SUCCESS: Added Phase 7.2 documentation to Token-Exchange.md''"

definition new_content :: "pystr \<Rightarrow> int \<Rightarrow> pystr" where
  "new_content content insertion_point =
     slice_to content insertion_point @ ANCHOR_HEAD @ PHASE_72_DOC @ ANCHOR_TAIL
       @ slice_from content (insertion_point + int (length ANCHOR))"

definition update_doc_main :: "fs \<Rightarrow> run" where
  "update_doc_main fs =
     (case read_text fs DOC_FILE_PATH of
        None \<Rightarrow> \<lparr>files = fs, stdout = [], status = Uncaught IOError\<rparr>
      | Some content \<Rightarrow>
          (let insertion_point = py_find content ANCHOR in
           if insertion_point = - 1
           then \<lparr>files = fs, stdout = [ERROR_MSG], status = Exit 1\<rparr>
           else \<lparr>files = write_text fs DOC_FILE_PATH (new_content content insertion_point),
                 stdout = [SUCCESS_MSG], status = Exit 0\<rparr>))"

section \<open>Notions of the specification\<close>

text \<open>
  \<open>first_at sub s i\<close>: the string \<open>sub\<close> occurs in \<open>s\<close> at offset \<open>i\<close> and at no lower offset.
\<close>

definition first_at :: "'a list \<Rightarrow> 'a list \<Rightarrow> nat \<Rightarrow> bool" where
  "first_at sub s i =
     (i \<le> length s \<and> prefix sub (drop i s) \<and> (\<forall>j<i. \<not> prefix sub (drop j s)))"


text \<open>
  ``All non-overlapping matches are replaced, left to right'', in the words of the
  specification: \<open>replaced_all M new s out\<close> holds when \<open>out\<close> is \<open>s\<close> with \<open>new\<close> put
  for the leftmost match \<open>m\<close> (no match starts before it), and the same done again to the
  text behind that match; a text without a match stays as it is. \<open>M\<close> says which strings
  are matches.
\<close>

inductive replaced_all :: "('a list \<Rightarrow> bool) \<Rightarrow> 'a list \<Rightarrow> 'a list \<Rightarrow> 'a list \<Rightarrow> bool"
  for M :: "'a list \<Rightarrow> bool" and new :: "'a list"
where
  no_match: "(\<And>pre m post. s = pre @ m @ post \<Longrightarrow> \<not> M m) \<Longrightarrow> replaced_all M new s s"
| leftmost: "M m \<Longrightarrow>
     (\<And>pre' m' post'. g @ m @ rest = pre' @ m' @ post' \<Longrightarrow> M m' \<Longrightarrow> length g \<le> length pre') \<Longrightarrow>
     replaced_all M new rest out \<Longrightarrow>
     replaced_all M new (g @ m @ rest) (g @ new @ out)"

text \<open>
  The text that the pattern of fix 2 matches: the pattern without the backslash that
  escapes its dot.
\<close>

definition FIX2_LITERAL :: pystr where
  "FIX2_LITERAL = str ''tokenExchangeUsed: !!this.tokenExchangeService''"


text \<open>The content that apply-fixes.py writes for the content it read.\<close>

definition all_fixes :: "pystr \<Rightarrow> pystr" where
  "all_fixes C = py_replace (literal_fixes C) FIX2_LITERAL FIX2_REPL"

text \<open>
  \<open>occurs_at sub s i\<close>: the string \<open>sub\<close> occurs in \<open>s\<close> at offset \<open>i\<close>.
\<close>

definition occurs_at :: "'a list \<Rightarrow> 'a list \<Rightarrow> nat \<Rightarrow> bool" where
  "occurs_at sub s i = (i \<le> length s \<and> prefix sub (drop i s))"

text \<open>
  Two strings that cannot overlap. \<open>no_tail_starts xs ys\<close> says that no non-empty suffix
  of \<open>xs\<close> is a prefix of \<open>ys\<close>. A string \<open>w\<close> is free of conflict with a string \<open>new\<close> when
  neither occurs in the other, no proper suffix of \<open>w\<close> begins \<open>new\<close> and no proper prefix
  of \<open>w\<close> ends \<open>new\<close>. Then an occurrence of \<open>w\<close> in a text around \<open>new\<close> lies wholly before
  or wholly behind \<open>new\<close>.
\<close>

fun no_tail_starts :: "'a list \<Rightarrow> 'a list \<Rightarrow> bool" where
  "no_tail_starts [] ys = True"
| "no_tail_starts (x # xs) ys = (\<not> prefix (x # xs) ys \<and> no_tail_starts xs ys)"

definition conflict_free :: "'a list \<Rightarrow> 'a list \<Rightarrow> bool" where
  "conflict_free w new =
     (\<not> sublist w new \<and> \<not> sublist new w \<and> no_tail_starts (tl w) new
      \<and> no_tail_starts (drop (Suc (length new) - length w) new) w)"

section \<open>Facts about the string operations\<close>

lemma find_from_range: "find_from sub s k = - 1 \<or> (int k \<le> find_from sub s k \<and> find_from sub s k \<le> int (k + length s))"
  by (induction s arbitrary: k) (auto, force+)

lemma find_from_absent: "(find_from sub s k = - 1) = (\<not> sublist sub s)"
proof (induction s arbitrary: k)
  case Nil
  then show ?case by auto
next
  case (Cons c cs)
  show ?case using Cons.IH [of "Suc k"] find_from_range [of sub "c # cs" k]
    by (auto simp: sublist_Cons_right)
qed

lemma find_from_shift: "find_from sub s k \<noteq> - 1 \<Longrightarrow> find_from sub s k = int k + find_from sub s 0"
proof (induction s arbitrary: k)
  case Nil
  then show ?case by (auto split: if_splits)
next
  case (Cons c cs)
  show ?case
  proof (cases "prefix sub (c # cs)")
    case True
    then show ?thesis by simp
  next
    case False
    with Cons.prems have ne: "find_from sub cs (Suc k) \<noteq> - 1" by simp
    then have "\<not> \<not> sublist sub cs" using find_from_absent [of sub cs "Suc k"] by simp
    then have ne1: "find_from sub cs (Suc 0) \<noteq> - 1" using find_from_absent [of sub cs "Suc 0"] by simp
    from Cons.IH [OF ne] Cons.IH [OF ne1] False show ?thesis by simp
  qed
qed

lemma py_find_absent: "(py_find s sub = - 1) = (\<not> sublist sub s)"
  by (simp add: py_find_def find_from_absent)

lemma py_find_range: "py_find s sub = - 1 \<or> (0 \<le> py_find s sub \<and> py_find s sub \<le> int (length s))"
  using find_from_range [of sub s 0] by (simp add: py_find_def)

lemma find_from_first: "find_from sub s 0 = int i \<Longrightarrow> first_at sub s i"
proof (induction s arbitrary: i)
  case Nil
  then show ?case by (auto simp: first_at_def split: if_splits)
next
  case (Cons c cs)
  show ?case
  proof (cases "prefix sub (c # cs)")
    case True
    with Cons.prems show ?thesis by (simp add: first_at_def)
  next
    case False
    with Cons.prems have e: "find_from sub cs (Suc 0) = int i" by simp
    then have "find_from sub cs (Suc 0) \<noteq> - 1" by simp
    from find_from_shift [OF this] e have "find_from sub cs 0 = int i - 1" by simp
    moreover from e find_from_range [of sub cs "Suc 0"] have "0 < i" by auto
    ultimately have "find_from sub cs 0 = int (i - 1)" by simp
    from Cons.IH [OF this] have fa: "first_at sub cs (i - 1)" .
    from \<open>0 < i\<close> obtain i' where i: "i = Suc i'" by (cases i) auto
    from fa False show ?thesis
      by (auto simp: first_at_def i less_Suc_eq_0_disj)
  qed
qed

lemma py_find_first: "py_find s sub = int i \<Longrightarrow> first_at sub s i"
  by (simp add: py_find_def find_from_first)

lemma py_replace_Nil: "old \<noteq> [] \<Longrightarrow> py_replace [] old new = []"
  by (simp add: py_replace.simps)

lemma py_replace_match:
  "old \<noteq> [] \<Longrightarrow> prefix old s \<Longrightarrow> py_replace s old new = new @ py_replace (drop (length old) s) old new"
  by (simp add: py_replace.simps [of s])

lemma py_replace_skip:
  "old \<noteq> [] \<Longrightarrow> \<not> prefix old (c # cs) \<Longrightarrow> py_replace (c # cs) old new = c # py_replace cs old new"
  by (simp add: py_replace.simps [of "c # cs"])

lemma py_replace_empty: "py_replace s [] new = interleave new s"
  by (simp add: py_replace.simps)

lemma py_replace_absent: "\<not> sublist old s \<Longrightarrow> py_replace s old new = s"
proof (induction s old new rule: py_replace.induct)
  case (1 s old new)
  from "1.prems" have ne: "old \<noteq> []" by auto
  from "1.prems" have np: "\<not> prefix old s" by (auto simp: sublist_def prefix_def)
  show ?case
  proof (cases s)
    case Nil
    with ne show ?thesis by (simp add: py_replace_Nil)
  next
    case (Cons c cs)
    with "1.prems" have "\<not> sublist old cs" by (auto simp: sublist_Cons_right)
    with "1.IH"(2) [OF ne np Cons] have "py_replace cs old new = cs" by simp
    with ne np Cons show ?thesis by (simp add: py_replace_skip)
  qed
qed

lemma py_replace_first:
  "old \<noteq> [] \<Longrightarrow> first_at old s i \<Longrightarrow>
   py_replace s old new = take i s @ new @ py_replace (drop (i + length old) s) old new"
proof (induction i arbitrary: s)
  case 0
  then have "prefix old s" by (simp add: first_at_def)
  with 0 show ?case by (simp add: py_replace_match)
next
  case (Suc i)
  from Suc.prems obtain c cs where s: "s = c # cs" by (cases s) (auto simp: first_at_def)
  from Suc.prems have np: "\<not> prefix old (c # cs)" by (auto simp: first_at_def s)
  from Suc.prems have "first_at old cs i" by (auto simp: first_at_def s)
  from Suc.IH [OF Suc.prems(1) this] np Suc.prems(1) show ?case
    by (simp add: s py_replace_skip)
qed

lemma replaced_all_Cons:
  assumes head: "\<And>m post. c # cs = m @ post \<Longrightarrow> \<not> M m"
    and tl: "replaced_all M new cs out"
  shows "replaced_all M new (c # cs) (c # out)"
  using tl
proof (cases rule: replaced_all.cases)
  case no_match
  have "replaced_all M new (c # cs) (c # cs)"
  proof (rule replaced_all.no_match)
    fix pre m post assume e: "c # cs = pre @ m @ post"
    show "\<not> M m"
    proof (cases pre)
      case Nil
      with e head show ?thesis by simp
    next
      case (Cons a pre')
      with e have "cs = pre' @ m @ post" by simp
      with no_match show ?thesis by blast
    qed
  qed
  with no_match show ?thesis by simp
next
  case (leftmost m g rest out')
  have "replaced_all M new ((c # g) @ m @ rest) ((c # g) @ new @ out')"
  proof (rule replaced_all.leftmost)
    show "M m" by fact
    show "replaced_all M new rest out'" by fact
    fix pre' m' post' assume e: "(c # g) @ m @ rest = pre' @ m' @ post'" and m': "M m'"
    show "length (c # g) \<le> length pre'"
    proof (cases pre')
      case Nil
      with e have "c # cs = m' @ post'" using leftmost(1) by simp
      with head m' show ?thesis by blast
    next
      case (Cons a p'')
      with e have "g @ m @ rest = p'' @ m' @ post'" by simp
      from leftmost(4) [OF this m'] Cons show ?thesis by simp
    qed
  qed
  with leftmost show ?thesis by simp
qed

lemma replaced_all_unique:
  assumes len: "\<And>m. M m \<Longrightarrow> length m = n"
  shows "replaced_all M new s out \<Longrightarrow> replaced_all M new s out' \<Longrightarrow> out = out'"
proof (induction arbitrary: out' rule: replaced_all.induct)
  case (no_match s)
  from no_match.prems show ?case
  proof (cases rule: replaced_all.cases)
    case no_match
    then show ?thesis by simp
  next
    case (leftmost m g rest out)
    with no_match.hyps show ?thesis by blast
  qed
next
  case (leftmost m g rest out)
  from leftmost.prems show ?case
  proof (cases rule: replaced_all.cases)
    case no_match
    with leftmost.hyps(1) show ?thesis by blast
  next
    case (leftmost m' g' rest' out2)
    note L = this
    from L(1) L(3) leftmost.hyps(2) have "length g \<le> length g'" by blast
    moreover from L(1) leftmost.hyps(1) L(4) have "length g' \<le> length g" by metis
    ultimately have lg: "length g = length g'" by simp
    with L(1) have g: "g = g'" and r: "m @ rest = m' @ rest'" by auto
    from len leftmost.hyps(1) L(3) have "length m = length m'" by simp
    with r have m: "m = m'" and rest: "rest = rest'" by auto
    from leftmost.IH [of out2] L(5) rest have "out = out2" by simp
    with g L(2) show ?thesis by simp
  qed
qed

lemma py_replace_replaced_all:
  "old \<noteq> [] \<Longrightarrow> replaced_all (\<lambda>m. m = old) new s (py_replace s old new)"
proof (induction s old new rule: py_replace.induct)
  case (1 s old new)
  note ne = "1.prems"
  show ?case
  proof (cases "prefix old s")
    case True
    then obtain rest where s: "s = old @ rest" by (auto simp: prefix_def)
    from "1.IH"(1) [OF ne True ne] s
    have "replaced_all (\<lambda>m. m = old) new rest (py_replace rest old new)" by simp
    then have "replaced_all (\<lambda>m. m = old) new ([] @ old @ rest) ([] @ new @ py_replace rest old new)"
      by (intro replaced_all.leftmost) auto
    with ne True s show ?thesis by (simp add: py_replace_match)
  next
    case False
    show ?thesis
    proof (cases s)
      case Nil
      have "replaced_all (\<lambda>m. m = old) new [] []"
        using ne by (intro replaced_all.no_match) auto
      with Nil ne show ?thesis by (simp add: py_replace_Nil)
    next
      case (Cons c cs)
      from "1.IH"(2) [OF ne False Cons ne]
      have "replaced_all (\<lambda>m. m = old) new cs (py_replace cs old new)" .
      then have "replaced_all (\<lambda>m. m = old) new (c # cs) (c # py_replace cs old new)"
        using False Cons by (intro replaced_all_Cons) (auto simp: prefix_def)
      with ne False Cons show ?thesis by (simp add: py_replace_skip)
    qed
  qed
qed

lemma sub_scan_Nil: "p \<noteq> [] \<Longrightarrow> sub_scan p repl [] = []"
  by (cases p) (simp_all add: sub_scan.simps)

lemma sub_scan_match:
  "p \<noteq> [] \<Longrightarrow> match_here p s \<Longrightarrow> sub_scan p repl s = repl @ sub_scan p repl (drop (length p) s)"
  by (simp add: sub_scan.simps [of p repl s])

lemma sub_scan_skip:
  "p \<noteq> [] \<Longrightarrow> \<not> match_here p (c # cs) \<Longrightarrow> sub_scan p repl (c # cs) = c # sub_scan p repl cs"
  by (simp add: sub_scan.simps [of p repl "c # cs"])

lemma sub_scan_empty: "sub_scan [] repl s = interleave repl s"
  by (simp add: sub_scan.simps)





lemma first_at_split:
  "first_at sub s i \<Longrightarrow> s = take i s @ sub @ drop (i + length sub) s"
proof -
  assume "first_at sub s i"
  then have "prefix sub (drop i s)" by (simp add: first_at_def)
  then obtain r where r: "drop i s = sub @ r" by (auto simp: prefix_def)
  then have "drop (length sub) (drop i s) = r" by simp
  then have "drop (i + length sub) s = r" by (simp add: add.commute)
  with r have "drop i s = sub @ drop (i + length sub) s" by simp
  then have "take i s @ drop i s = take i s @ sub @ drop (i + length sub) s" by simp
  then show ?thesis by simp
qed

lemma sublist_first_at: "sublist sub s \<Longrightarrow> \<exists>i. py_find s sub = int i \<and> first_at sub s i"
proof -
  assume "sublist sub s"
  then have "py_find s sub \<noteq> - 1" by (simp add: py_find_absent)
  with py_find_range [of s sub] have "0 \<le> py_find s sub" by auto
  then obtain i where "py_find s sub = int i" using nonneg_int_cases by blast
  then show ?thesis using py_find_first by blast
qed

lemma first_at_unique: "first_at sub s i \<Longrightarrow> first_at sub s j \<Longrightarrow> i = j"
  unfolding first_at_def by (meson linorder_neqE_nat)

lemma first_at_py_find: "first_at sub s i \<Longrightarrow> py_find s sub = int i"
proof -
  assume a: "first_at sub s i"
  then have "prefix sub (drop i s)" by (simp add: first_at_def)
  then obtain r where "drop i s = sub @ r" by (auto simp: prefix_def)
  then have "take i s @ drop i s = take i s @ sub @ r" by simp
  then have "sublist sub s" unfolding sublist_def by (metis append_take_drop_id)
  from sublist_first_at [OF this] obtain j where j: "py_find s sub = int j" "first_at sub s j" by blast
  with a first_at_unique show ?thesis by blast
qed

lemma match_here_literal: "match_here (map Lit old) s = prefix old s"
  by (induction "map Lit old" s arbitrary: old rule: match_here.induct) auto

lemma sub_scan_literal: "sub_scan (map Lit old) repl s = py_replace s old repl"
proof (induction s old repl rule: py_replace.induct)
  case (1 s old new)
  show ?case
  proof (cases "old = []")
    case True
    then show ?thesis by (simp add: sub_scan_empty py_replace_empty)
  next
    case ne: False
    then have nep: "map Lit old \<noteq> []" by simp
    show ?thesis
    proof (cases "prefix old s")
      case True
      with "1.IH"(1) [OF ne True] ne nep show ?thesis
        by (simp add: sub_scan_match py_replace_match match_here_literal)
    next
      case False
      show ?thesis
      proof (cases s)
        case Nil
        with ne nep show ?thesis by (simp add: sub_scan_Nil py_replace_Nil)
      next
        case (Cons c cs)
        with "1.IH"(2) [OF ne False Cons] ne nep False show ?thesis
          by (simp add: sub_scan_skip py_replace_skip match_here_literal)
      qed
    qed
  qed
qed

lemma first_at_prefix: "prefix sub s \<Longrightarrow> first_at sub s 0"
  by (simp add: first_at_def)

lemma not_prefix_append:
  "length A \<le> length R \<Longrightarrow> \<not> prefix A R \<Longrightarrow> \<not> prefix A (R @ x)"
  by (auto simp: prefix_append)

section \<open>Facts about reading and writing text\<close>

lemma universal_newlines_id: "13 \<notin> set s \<Longrightarrow> universal_newlines s = s"
  by (induction s rule: universal_newlines.induct) auto

lemma universal_newlines_no_cr: "13 \<notin> set (universal_newlines s)"
  by (induction s rule: universal_newlines.induct) auto

lemma read_text_cr_free: "read_text fs p = Some C \<Longrightarrow> 13 \<notin> set C"
  by (auto simp: read_text_def universal_newlines_no_cr)

lemma read_text_written: "13 \<notin> set s \<Longrightarrow> read_text (fs(p \<mapsto> s)) p = Some s"
  by (simp add: read_text_def universal_newlines_id)

lemma read_text_other: "q \<noteq> p \<Longrightarrow> read_text (fs(p \<mapsto> s)) q = read_text fs q"
  by (simp add: read_text_def)

lemma read_text_None: "(read_text fs p = None) = (fs p = None)"
  by (simp add: read_text_def)

lemma interleave_set: "set (interleave new s) \<subseteq> set new \<union> set s"
  by (induction s) auto

lemma py_replace_set: "set (py_replace s old new) \<subseteq> set s \<union> set new"
proof (induction s old new rule: py_replace.induct)
  case (1 s old new)
  show ?case
  proof (cases "old = []")
    case True
    with interleave_set [of new s] show ?thesis by (auto simp: py_replace_empty)
  next
    case ne: False
    show ?thesis
    proof (cases "prefix old s")
      case True
      have "set (drop (length old) s) \<subseteq> set s" by (rule set_drop_subset)
      with "1.IH"(1) [OF ne True] ne True show ?thesis
        by (auto simp: py_replace_match)
    next
      case False
      show ?thesis
      proof (cases s)
        case Nil
        with ne show ?thesis by (simp add: py_replace_Nil)
      next
        case (Cons c cs)
        with "1.IH"(2) [OF ne False Cons] ne False show ?thesis
          by (auto simp: py_replace_skip)
      qed
    qed
  qed
qed

lemma py_replace_cr_free:
  "13 \<notin> set s \<Longrightarrow> 13 \<notin> set new \<Longrightarrow> 13 \<notin> set (py_replace s old new)"
  using py_replace_set [of s old new] by auto

section \<open>Facts about the constants of the scripts\<close>

lemma anchor_split: "ANCHOR = ANCHOR_HEAD @ ANCHOR_TAIL"
  by (simp add: ANCHOR_def ANCHOR_HEAD_def ANCHOR_TAIL_def)

lemma length_anchor: "length ANCHOR = 80"
  by (simp add: ANCHOR_def str_def nl_def check_mark_def)

lemma length_anchor_head: "length ANCHOR_HEAD = 63"
  by (simp add: ANCHOR_HEAD_def str_def nl_def check_mark_def)

lemma length_anchor_tail: "length ANCHOR_TAIL = 17"
  by (simp add: ANCHOR_TAIL_def str_def nl_def check_mark_def)

lemma doc_nonempty: "PHASE_72_DOC \<noteq> []"
  by (simp add: PHASE_72_DOC_def nl_def)

lemma length_doc: "length PHASE_72_DOC = 2014"
  by (simp add: PHASE_72_DOC_def str_def nl_def check_mark_def apostrophe_def rightwards_arrow_def)

lemma fix2_compiles: "re_compile FIX2_PATTERN = Inr (map Lit FIX2_LITERAL)"
  by (simp add: FIX2_PATTERN_def FIX2_LITERAL_def str_def backslash_def metachars_def is_alnum_def)

lemma fix2_repl_plain: "92 \<notin> set FIX2_REPL"
  by (simp add: FIX2_REPL_def str_def)

lemma fix2_is_replace: "re_sub FIX2_PATTERN FIX2_REPL s = Inr (py_replace s FIX2_LITERAL FIX2_REPL)"
  by (simp add: re_sub_def fix2_compiles fix2_repl_plain sub_scan_literal)

lemma fix2_literal_nonempty: "FIX2_LITERAL \<noteq> []"
  by (simp add: FIX2_LITERAL_def str_def)

lemma anchor_nonempty: "ANCHOR \<noteq> []"
  using length_anchor by auto

lemmas unfold_consts = str_def nl_def apostrophe_def check_mark_def rightwards_arrow_def backslash_def

lemma cr_free_fixes:
  "13 \<notin> set FIX3_OLD" "13 \<notin> set FIX3_NEW" "13 \<notin> set FIX1_NEW" "13 \<notin> set FIX2_REPL"
  by (simp_all add: FIX3_OLD_def FIX3_NEW_def FIX1_NEW_def FIX2_REPL_def unfold_consts)

lemma cr_free_doc:
  "13 \<notin> set ANCHOR" "13 \<notin> set ANCHOR_HEAD" "13 \<notin> set ANCHOR_TAIL" "13 \<notin> set PHASE_72_DOC"
  by (simp_all add: ANCHOR_def ANCHOR_HEAD_def ANCHOR_TAIL_def PHASE_72_DOC_def unfold_consts)

section \<open>The runs of the two scripts\<close>

lemma update_doc_unreadable:
  "read_text fs DOC_FILE_PATH = None \<Longrightarrow>
   update_doc_main fs = \<lparr>files = fs, stdout = [], status = Uncaught IOError\<rparr>"
  by (simp add: update_doc_main_def write_text_def)

lemma update_doc_missing:
  "read_text fs DOC_FILE_PATH = Some C \<Longrightarrow> \<not> sublist ANCHOR C \<Longrightarrow>
   update_doc_main fs = \<lparr>files = fs, stdout = [ERROR_MSG], status = Exit 1\<rparr>"
  by (simp add: update_doc_main_def write_text_def py_find_absent)

lemma update_doc_found:
  assumes "read_text fs DOC_FILE_PATH = Some C" and "first_at ANCHOR C i"
  shows "update_doc_main fs =
     \<lparr>files = fs(DOC_FILE_PATH \<mapsto>
        take i C @ ANCHOR_HEAD @ PHASE_72_DOC @ ANCHOR_TAIL @ drop (i + length ANCHOR) C),
      stdout = [SUCCESS_MSG], status = Exit 0\<rparr>"
proof -
  from assms(2) have f: "py_find C ANCHOR = int i" by (rule first_at_py_find)
  have "nat (int i + int (length ANCHOR)) = i + length ANCHOR" by simp
  with f assms(1) show ?thesis
    by (simp add: update_doc_main_def write_text_def new_content_def slice_to_def slice_from_def Let_def
        del: of_nat_add)
qed

lemma apply_fixes_unreadable:
  "read_text fs FIXES_FILE_PATH = None \<Longrightarrow>
   apply_fixes pattern fs = \<lparr>files = fs, stdout = [], status = Uncaught IOError\<rparr>"
  by (simp add: apply_fixes_def write_text_def)

lemma apply_fixes_bad_pattern:
  "read_text fs FIXES_FILE_PATH = Some C \<Longrightarrow> re_compile pattern = Inl e \<Longrightarrow>
   apply_fixes pattern fs = \<lparr>files = fs, stdout = [], status = Uncaught e\<rparr>"
  by (simp add: apply_fixes_def write_text_def re_sub_def)

lemma apply_fixes_readable:
  "read_text fs FIXES_FILE_PATH = Some C \<Longrightarrow>
   apply_fixes_main fs =
     \<lparr>files = fs(FIXES_FILE_PATH \<mapsto> py_replace (literal_fixes C) FIX2_LITERAL FIX2_REPL),
      stdout = [FIXES_DONE_MSG, FIX1_MSG, FIX2_MSG, FIX3_MSG], status = Exit 0\<rparr>"
  by (simp add: apply_fixes_main_def apply_fixes_def write_text_def fix2_is_replace)


lemma apply_fixes_report:
  "read_text fs FIXES_FILE_PATH = Some C \<Longrightarrow>
   stdout (apply_fixes_main fs) = [FIXES_DONE_MSG, FIX1_MSG, FIX2_MSG, FIX3_MSG]
   \<and> status (apply_fixes_main fs) = Exit 0"
  by (simp add: apply_fixes_readable)


lemma doc_at_17: "hd (drop 17 PHASE_72_DOC) \<noteq> hd PHASE_72_DOC"
  by (simp add: PHASE_72_DOC_def str_def nl_def)

lemma update_doc_anchor_only:
  "files (update_doc_main [DOC_FILE_PATH \<mapsto> ANCHOR]) DOC_FILE_PATH
     = Some (ANCHOR_HEAD @ PHASE_72_DOC @ ANCHOR_TAIL)"
proof -
  have f: "read_text [DOC_FILE_PATH \<mapsto> ANCHOR] DOC_FILE_PATH = Some ANCHOR"
    by (simp add: read_text_written cr_free_doc)
  have a: "first_at ANCHOR ANCHOR 0" by (simp add: first_at_prefix)
  from update_doc_found [of "[DOC_FILE_PATH \<mapsto> ANCHOR]" ANCHOR 0, OF f a]
  show ?thesis by simp
qed


lemma fix3_facts: "FIX3_OLD \<noteq> []" "length FIX3_OLD \<le> length FIX3_NEW" "\<not> prefix FIX3_OLD FIX3_NEW"
  by (simp_all add: FIX3_OLD_def FIX3_NEW_def str_def nl_def apostrophe_def)

lemma fix1_facts: "FIX1_OLD \<noteq> []" "length FIX1_OLD \<le> length FIX1_NEW" "\<not> prefix FIX1_OLD FIX1_NEW"
  by (simp_all add: FIX1_OLD_def FIX1_NEW_def str_def nl_def apostrophe_def)

lemma replace_first_occurrence:
  assumes "sublist A C" and "A \<noteq> []" and "length A \<le> length R" and "\<not> prefix A R"
  shows "\<exists>i. py_find C A = int i
           \<and> py_replace C A R = take i C @ R @ py_replace (drop (i + length A) C) A R
           \<and> \<not> prefix A (drop i (py_replace C A R))"
proof -
  from sublist_first_at [OF assms(1)] obtain i
    where f: "py_find C A = int i" and i: "first_at A C i" by blast
  let ?rest = "py_replace (drop (i + length A) C) A R"
  have r: "py_replace C A R = take i C @ R @ ?rest"
    using assms(2) i by (rule py_replace_first)
  from i have "length (take i C) = i" by (simp add: first_at_def)
  then have "drop i (take i C @ R @ ?rest) = R @ ?rest" by simp
  with r not_prefix_append [OF assms(3,4), of ?rest]
  have "\<not> prefix A (drop i (py_replace C A R))" by simp
  with f r show ?thesis by blast
qed


lemma apply_fixes_cases:
  "(read_text fs FIXES_FILE_PATH = None \<and> apply_fixes pattern fs = \<lparr>files = fs, stdout = [], status = Uncaught IOError\<rparr>)
   \<or> (\<exists>C e. read_text fs FIXES_FILE_PATH = Some C \<and> re_sub pattern FIX2_REPL (literal_fixes C) = Inl e
         \<and> apply_fixes pattern fs = \<lparr>files = fs, stdout = [], status = Uncaught e\<rparr>)
   \<or> (\<exists>C C'. read_text fs FIXES_FILE_PATH = Some C \<and> re_sub pattern FIX2_REPL (literal_fixes C) = Inr C'
         \<and> apply_fixes pattern fs = \<lparr>files = fs(FIXES_FILE_PATH \<mapsto> C'),
              stdout = [FIXES_DONE_MSG, FIX1_MSG, FIX2_MSG, FIX3_MSG], status = Exit 0\<rparr>)"
  by (auto simp: apply_fixes_def write_text_def split: option.splits sum.splits)

lemma update_doc_cases:
  "(read_text fs DOC_FILE_PATH = None \<and> update_doc_main fs = \<lparr>files = fs, stdout = [], status = Uncaught IOError\<rparr>)
   \<or> (\<exists>C. read_text fs DOC_FILE_PATH = Some C \<and> py_find C ANCHOR = - 1
         \<and> update_doc_main fs = \<lparr>files = fs, stdout = [ERROR_MSG], status = Exit 1\<rparr>)
   \<or> (\<exists>C i. read_text fs DOC_FILE_PATH = Some C \<and> py_find C ANCHOR = int i
         \<and> update_doc_main fs = \<lparr>files = fs(DOC_FILE_PATH \<mapsto> new_content C (int i)),
              stdout = [SUCCESS_MSG], status = Exit 0\<rparr>)"
proof (cases "read_text fs DOC_FILE_PATH")
  case None
  then show ?thesis by (simp add: update_doc_main_def write_text_def)
next
  case (Some C)
  show ?thesis
  proof (cases "py_find C ANCHOR = - 1")
    case True
    with Some show ?thesis by (simp add: update_doc_main_def write_text_def)
  next
    case False
    with py_find_range [of C ANCHOR] have "0 \<le> py_find C ANCHOR" by auto
    then obtain i where "py_find C ANCHOR = int i" using nonneg_int_cases by blast
    with Some False show ?thesis by (simp add: update_doc_main_def write_text_def)
  qed
qed


lemma paths_differ: "DOC_FILE_PATH \<noteq> FIXES_FILE_PATH"
  by (simp add: DOC_FILE_PATH_def FIXES_FILE_PATH_def)

lemma lone_backslash: "re_compile backslash = Inl PatternError"
  by (simp add: backslash_def)

lemma apply_fixes_main_files:
  "read_text fs FIXES_FILE_PATH = Some C \<Longrightarrow>
   files (apply_fixes_main fs) = fs(FIXES_FILE_PATH \<mapsto> all_fixes C)"
  by (simp add: apply_fixes_readable all_fixes_def)

section \<open>Strings that do not overlap, and runs on a patched file\<close>

lemma cf_fix3: "conflict_free FIX3_OLD FIX3_NEW"
  by (simp add: conflict_free_def FIX3_OLD_def FIX3_NEW_def unfold_consts sublist_code)

lemma cf_fix1: "conflict_free FIX1_OLD FIX1_NEW"
  by (simp add: conflict_free_def FIX1_OLD_def FIX1_NEW_def unfold_consts sublist_code)

lemma cf_fix2: "conflict_free FIX2_LITERAL FIX2_REPL"
  by (simp add: conflict_free_def FIX2_LITERAL_def FIX2_REPL_def unfold_consts sublist_code)

lemma cf_fix3_new1: "conflict_free FIX3_OLD FIX1_NEW"
  by (simp add: conflict_free_def FIX3_OLD_def FIX1_NEW_def unfold_consts sublist_code)

lemma cf_fix3_repl2: "conflict_free FIX3_OLD FIX2_REPL"
  by (simp add: conflict_free_def FIX3_OLD_def FIX2_REPL_def unfold_consts sublist_code)

lemma cf_fix1_repl2: "conflict_free FIX1_OLD FIX2_REPL"
  by (simp add: conflict_free_def FIX1_OLD_def FIX2_REPL_def unfold_consts sublist_code)

lemma cf_anchor: "conflict_free ANCHOR (ANCHOR_HEAD @ PHASE_72_DOC @ ANCHOR_TAIL)"
  by (simp add: conflict_free_def ANCHOR_def ANCHOR_HEAD_def ANCHOR_TAIL_def PHASE_72_DOC_def unfold_consts sublist_code)

lemma no_tail_starts_suffix:
  "no_tail_starts xs ys \<Longrightarrow> suffix v xs \<Longrightarrow> v \<noteq> [] \<Longrightarrow> \<not> prefix v ys"
proof (induction xs)
  case Nil
  then show ?case by simp
next
  case (Cons x xs)
  from Cons.prems(2) have "v = x # xs \<or> suffix v xs" by (simp add: suffix_Cons)
  with Cons show ?case by auto
qed

lemma sublist_append_cases:
  assumes "sublist w (a @ b)"
  shows "sublist w a \<or> sublist w b
       \<or> (\<exists>u v. w = u @ v \<and> u \<noteq> [] \<and> v \<noteq> [] \<and> suffix u a \<and> prefix v b)"
proof -
  from assms obtain ps ss where e: "a @ b = ps @ w @ ss" by (auto simp: sublist_def)
  then consider us where "a = ps @ us" "us @ b = w @ ss" | us where "a @ us = ps" "b = us @ w @ ss"
    by (auto simp: append_eq_append_conv2)
  then show ?thesis
  proof cases
    case 1
    from 1(2) consider vs where "us = w @ vs" | vs where "us @ vs = w" "b = vs @ ss"
      by (auto simp: append_eq_append_conv2)
    then show ?thesis
    proof cases
      case 1
      with \<open>a = ps @ us\<close> have "sublist w a" by (auto simp: sublist_def)
      then show ?thesis by simp
    next
      case 2
      show ?thesis
      proof (cases "us = [] \<or> vs = []")
        case True
        then show ?thesis
        proof
          assume "us = []"
          with 2 have "sublist w b" by (auto simp: sublist_def intro: exI [of _ "[]"])
          then show ?thesis by simp
        next
          assume "vs = []"
          with 2 \<open>a = ps @ us\<close> have "a = ps @ w @ []" by simp
          then have "sublist w a" unfolding sublist_def by blast
          then show ?thesis by simp
        qed
      next
        case False
        with 2 \<open>a = ps @ us\<close> have "w = us @ vs \<and> us \<noteq> [] \<and> vs \<noteq> [] \<and> suffix us a \<and> prefix vs b"
          by (auto simp: suffix_def prefix_def)
        then show ?thesis by blast
      qed
    qed
  next
    case 2
    then have "sublist w b" by (auto simp: sublist_def)
    then show ?thesis by simp
  qed
qed

lemma suffix_drop_short:
  assumes "suffix u xs" and "length u \<le> length xs - n"
  shows "suffix u (drop n xs)"
proof -
  show ?thesis
  proof (cases "u = []")
    case True
    then show ?thesis by simp
  next
    case False
    from assms(1) obtain p where xs: "xs = p @ u" by (auto simp: suffix_def)
    from False have "0 < length u" by simp
    moreover from assms(2) xs have "length u \<le> length p + length u - n" by simp
    ultimately have "n \<le> length p" by arith
    with xs have "drop n xs = drop n p @ u" by simp
    then show ?thesis by (simp add: suffix_def)
  qed
qed

lemma conflict_free_split:
  assumes cf: "conflict_free w new" and occ: "sublist w (a @ new @ b)"
  shows "sublist w a \<or> sublist w b"
proof -
  from cf have n1: "\<not> sublist w new" and n2: "\<not> sublist new w"
    and t1: "no_tail_starts (tl w) new"
    and t2: "no_tail_starts (drop (Suc (length new) - length w) new) w"
    by (simp_all add: conflict_free_def)
  from sublist_append_cases [OF occ]
  consider "sublist w a" | "sublist w (new @ b)"
    | u v where "w = u @ v" "u \<noteq> []" "v \<noteq> []" "suffix u a" "prefix v (new @ b)"
    by blast
  then show ?thesis
  proof cases
    case 1
    then show ?thesis by simp
  next
    case 2
    from sublist_append_cases [OF 2] n1
    consider "sublist w b"
      | u v where "w = u @ v" "u \<noteq> []" "v \<noteq> []" "suffix u new" "prefix v b"
      by blast
    then show ?thesis
    proof cases
      case 1
      then show ?thesis by simp
    next
      case 2
      from 2(1,3) have "length u \<le> length w - 1" by (cases v) auto
      moreover from 2(4) have "length u \<le> length new" by (auto simp: suffix_def)
      ultimately have "length u \<le> length new - (Suc (length new) - length w)" by simp
      with 2(4) have "suffix u (drop (Suc (length new) - length w) new)"
        by (rule suffix_drop_short)
      from no_tail_starts_suffix [OF t2 this 2(2)] 2(1) show ?thesis by simp
    qed
  next
    case 3
    from 3(1,2) have "suffix v (tl w)" by (cases u) (auto simp: suffix_def)
    from no_tail_starts_suffix [OF t1 this 3(3)] have np: "\<not> prefix v new" .
    from 3(5) np obtain us where "v = new @ us" by (auto simp: prefix_append)
    with 3(1) have "sublist new w" by (auto simp: sublist_def)
    with n2 show ?thesis by simp
  qed
qed

lemma first_at_no_earlier:
  assumes "first_at old s i" and "old \<noteq> []"
  shows "\<not> sublist old (take i s)"
proof
  assume "sublist old (take i s)"
  then obtain ps ss where e: "take i s = ps @ old @ ss" by (auto simp: sublist_def)
  then have "length (ps @ old @ ss) \<le> i" by (metis length_take min.cobounded2)
  with assms(2) have lt: "length ps < i" by (cases old) auto
  have "s = (ps @ old @ ss) @ drop i s" using e by (metis append_take_drop_id)
  then have "drop (length ps) s = old @ ss @ drop i s" by (metis append.assoc append_eq_conv_conj)
  then have "prefix old (drop (length ps) s)" by simp
  with assms(1) lt show False by (simp add: first_at_def)
qed

lemma replace_keeps_absent:
  assumes "old \<noteq> []" and "conflict_free w new"
  shows "\<not> sublist w s \<Longrightarrow> \<not> sublist w (py_replace s old new)"
proof (induction "length s" arbitrary: s rule: less_induct)
  case less
  show ?case
  proof (cases "sublist old s")
    case False
    with less.prems show ?thesis by (simp add: py_replace_absent)
  next
    case True
    from sublist_first_at [OF True] obtain i where i: "first_at old s i" by blast
    let ?rest = "drop (i + length old) s"
    from first_at_split [OF i] have s: "s = take i s @ old @ ?rest" .
    have r: "py_replace s old new = take i s @ new @ py_replace ?rest old new"
      using assms(1) i by (rule py_replace_first)
    from first_at_split [OF i] have "length s = length (take i s @ old @ ?rest)" by simp
    with assms(1) have "length ?rest < length s" by (cases old) auto
    moreover have na: "\<not> sublist w (take i s)"
    proof
      assume "sublist w (take i s)"
      then obtain ps ss where "take i s = ps @ w @ ss" by (auto simp: sublist_def)
      with s have "s = ps @ w @ (ss @ old @ ?rest)" by simp
      then have "sublist w s" unfolding sublist_def by blast
      with less.prems show False by simp
    qed
    moreover have nr: "\<not> sublist w ?rest"
    proof
      assume "sublist w ?rest"
      then obtain ps ss where "?rest = ps @ w @ ss" by (auto simp: sublist_def)
      with s have "s = (take i s @ old @ ps) @ w @ ss" by simp
      then have "sublist w s" unfolding sublist_def by blast
      with less.prems show False by simp
    qed
    ultimately have "\<not> sublist w (py_replace ?rest old new)" using less.hyps by blast
    with na conflict_free_split [OF assms(2), of "take i s" "py_replace ?rest old new"] r
    show ?thesis by auto
  qed
qed

lemma replace_removes_old:
  assumes "old \<noteq> []" and "conflict_free old new"
  shows "\<not> sublist old (py_replace s old new)"
proof (induction "length s" arbitrary: s rule: less_induct)
  case less
  show ?case
  proof (cases "sublist old s")
    case False
    then show ?thesis by (simp add: py_replace_absent)
  next
    case True
    from sublist_first_at [OF True] obtain i where i: "first_at old s i" by blast
    let ?rest = "drop (i + length old) s"
    have r: "py_replace s old new = take i s @ new @ py_replace ?rest old new"
      using assms(1) i by (rule py_replace_first)
    from first_at_split [OF i] have "length s = length (take i s @ old @ ?rest)" by simp
    with assms(1) have "length ?rest < length s" by (cases old) auto
    then have "\<not> sublist old (py_replace ?rest old new)" using less.hyps by blast
    with first_at_no_earlier [OF i assms(1)]
      conflict_free_split [OF assms(2), of "take i s" "py_replace ?rest old new"] r
    show ?thesis by auto
  qed
qed

lemma all_fixes_anchor_free:
  "\<not> sublist FIX3_OLD (all_fixes C)" "\<not> sublist FIX1_OLD (all_fixes C)"
  "\<not> sublist FIX2_LITERAL (all_fixes C)"
proof -
  let ?s1 = "py_replace C FIX3_OLD FIX3_NEW"
  let ?s2 = "py_replace ?s1 FIX1_OLD FIX1_NEW"
  have a1: "\<not> sublist FIX3_OLD ?s1"
    using fix3_facts(1) cf_fix3 by (rule replace_removes_old)
  have a2: "\<not> sublist FIX3_OLD ?s2"
    using fix1_facts(1) cf_fix3_new1 a1 by (rule replace_keeps_absent)
  have b2: "\<not> sublist FIX1_OLD ?s2"
    using fix1_facts(1) cf_fix1 by (rule replace_removes_old)
  have s: "all_fixes C = py_replace ?s2 FIX2_LITERAL FIX2_REPL"
    by (simp add: all_fixes_def literal_fixes_def)
  show "\<not> sublist FIX3_OLD (all_fixes C)"
    unfolding s using fix2_literal_nonempty cf_fix3_repl2 a2 by (rule replace_keeps_absent)
  show "\<not> sublist FIX1_OLD (all_fixes C)"
    unfolding s using fix2_literal_nonempty cf_fix1_repl2 b2 by (rule replace_keeps_absent)
  show "\<not> sublist FIX2_LITERAL (all_fixes C)"
    unfolding s using fix2_literal_nonempty cf_fix2 by (rule replace_removes_old)
qed

lemma all_fixes_idem: "all_fixes (all_fixes C) = all_fixes C"
proof -
  have "literal_fixes (all_fixes C) = all_fixes C"
    by (simp add: literal_fixes_def py_replace_absent all_fixes_anchor_free)
  then show ?thesis
    by (simp add: all_fixes_def [of "all_fixes C"] py_replace_absent all_fixes_anchor_free)
qed

lemma all_fixes_cr_free: "13 \<notin> set C \<Longrightarrow> 13 \<notin> set (all_fixes C)"
  by (simp add: all_fixes_def literal_fixes_def py_replace_cr_free cr_free_fixes)

lemma apply_fixes_rerun:
  assumes "read_text fs FIXES_FILE_PATH = Some C"
  shows "files (apply_fixes_main (files (apply_fixes_main fs))) = files (apply_fixes_main fs)"
    and "stdout (apply_fixes_main (files (apply_fixes_main fs)))
          = [FIXES_DONE_MSG, FIX1_MSG, FIX2_MSG, FIX3_MSG]"
    and "status (apply_fixes_main (files (apply_fixes_main fs))) = Exit 0"
proof -
  let ?fs' = "files (apply_fixes_main fs)"
  from assms have f: "?fs' = fs(FIXES_FILE_PATH \<mapsto> all_fixes C)" by (rule apply_fixes_main_files)
  from read_text_cr_free [OF assms] have "13 \<notin> set (all_fixes C)" by (rule all_fixes_cr_free)
  with f have r: "read_text ?fs' FIXES_FILE_PATH = Some (all_fixes C)"
    by (simp add: read_text_written)
  from apply_fixes_main_files [of ?fs' "all_fixes C", OF r] f
  show "files (apply_fixes_main ?fs') = ?fs'" by (simp add: all_fixes_idem)
  from apply_fixes_report [of ?fs' "all_fixes C", OF r]
  show "stdout (apply_fixes_main ?fs') = [FIXES_DONE_MSG, FIX1_MSG, FIX2_MSG, FIX3_MSG]"
    and "status (apply_fixes_main ?fs') = Exit 0" by simp_all
qed

lemma occurs_once:
  assumes "\<exists>!i. occurs_at sub s i" and "sub \<noteq> []"
  shows "\<exists>i. first_at sub s i \<and> \<not> sublist sub (drop (i + length sub) s)"
proof -
  from assms(1) obtain i where i: "occurs_at sub s i"
    and u: "\<And>j. occurs_at sub s j \<Longrightarrow> j = i" by blast
  have fa: "first_at sub s i"
    unfolding first_at_def
  proof (intro conjI allI impI)
    from i show "i \<le> length s" "prefix sub (drop i s)" by (simp_all add: occurs_at_def)
    fix j assume j: "j < i"
    show "\<not> prefix sub (drop j s)"
    proof
      assume "prefix sub (drop j s)"
      with j i have "occurs_at sub s j" by (simp add: occurs_at_def)
      with u j show False by auto
    qed
  qed
  have "\<not> sublist sub (drop (i + length sub) s)"
  proof
    assume "sublist sub (drop (i + length sub) s)"
    then obtain ps ss where e: "drop (i + length sub) s = ps @ sub @ ss" by (auto simp: sublist_def)
    then have "drop (length ps) (drop (i + length sub) s) = sub @ ss" by simp
    then have d: "drop (length ps + (i + length sub)) s = sub @ ss" by simp
    with assms(2) have "length ps + (i + length sub) \<le> length s"
      by (metis append_is_Nil_conv drop_all linorder_le_cases)
    with d have "occurs_at sub s (length ps + (i + length sub))" by (simp add: occurs_at_def)
    from u [OF this] assms(2) show False by simp
  qed
  with fa show ?thesis by blast
qed

lemma update_doc_rerun:
  assumes "read_text gs DOC_FILE_PATH = Some D" and "\<exists>!i. occurs_at ANCHOR D i"
  shows "status (update_doc_main gs) = Exit 0"
    and "\<exists>D'. files (update_doc_main gs) = gs(DOC_FILE_PATH \<mapsto> D') \<and> \<not> sublist ANCHOR D'"
    and "files (update_doc_main (files (update_doc_main gs))) = files (update_doc_main gs)"
    and "stdout (update_doc_main (files (update_doc_main gs))) = [ERROR_MSG]"
    and "status (update_doc_main (files (update_doc_main gs))) = Exit 1"
proof -
  from occurs_once [OF assms(2) anchor_nonempty] obtain i
    where i: "first_at ANCHOR D i" and n: "\<not> sublist ANCHOR (drop (i + length ANCHOR) D)" by blast
  define D' where "D' = take i D @ (ANCHOR_HEAD @ PHASE_72_DOC @ ANCHOR_TAIL) @ drop (i + length ANCHOR) D"
  let ?gs' = "files (update_doc_main gs)"
  note run = update_doc_found [of gs D i, OF assms(1) i]
  from run show "status (update_doc_main gs) = Exit 0" by simp
  from run have f: "?gs' = gs(DOC_FILE_PATH \<mapsto> D')" by (simp add: D'_def)
  have nD': "\<not> sublist ANCHOR D'"
    unfolding D'_def
    using conflict_free_split [OF cf_anchor, of "take i D" "drop (i + length ANCHOR) D"]
      first_at_no_earlier [OF i anchor_nonempty] n by blast
  with f show "\<exists>D'. ?gs' = gs(DOC_FILE_PATH \<mapsto> D') \<and> \<not> sublist ANCHOR D'" by blast
  from read_text_cr_free [OF assms(1)] have "13 \<notin> set D" .
  then have "13 \<notin> set D'"
    unfolding D'_def using cr_free_doc by (auto dest: in_set_takeD in_set_dropD)
  with f have r: "read_text ?gs' DOC_FILE_PATH = Some D'" by (simp add: read_text_written)
  from update_doc_missing [of ?gs' D', OF r nD']
  show "files (update_doc_main ?gs') = ?gs'" "stdout (update_doc_main ?gs') = [ERROR_MSG]"
    "status (update_doc_main ?gs') = Exit 1" by simp_all
qed

lemma occurs_at_self: "occurs_at s s i = (i = 0)"
proof
  assume "occurs_at s s i"
  then have "i \<le> length s" and "prefix s (drop i s)" by (simp_all add: occurs_at_def)
  from this(2) have "length s \<le> length (drop i s)" by (rule prefix_length_le)
  with \<open>i \<le> length s\<close> show "i = 0" by simp
next
  assume "i = 0"
  then show "occurs_at s s i" by (simp add: occurs_at_def)
qed

lemma update_doc_found_grows:
  assumes "gs DOC_FILE_PATH = Some D" and "13 \<notin> set D" and "sublist ANCHOR D"
  shows "files (update_doc_main gs) \<noteq> gs" and "status (update_doc_main gs) = Exit 0"
proof -
  from assms(1,2) have rd: "read_text gs DOC_FILE_PATH = Some D"
    by (simp add: read_text_def universal_newlines_id)
  from sublist_first_at [OF assms(3)] obtain i where i: "first_at ANCHOR D i" by blast
  let ?D' = "take i D @ ANCHOR_HEAD @ PHASE_72_DOC @ ANCHOR_TAIL @ drop (i + length ANCHOR) D"
  note run = update_doc_found [of gs D i, OF rd i]
  from run show "status (update_doc_main gs) = Exit 0" by simp
  from first_at_split [OF i] have "length D = length (take i D @ ANCHOR @ drop (i + length ANCHOR) D)"
    by simp
  then have l: "length ?D' = length D + length PHASE_72_DOC"
    by (simp add: anchor_split)
  have "0 < length PHASE_72_DOC" using doc_nonempty by simp
  with l have "length ?D' \<noteq> length D" by linarith
  then have "?D' \<noteq> D" by metis
  with assms(1) have "(gs(DOC_FILE_PATH \<mapsto> ?D')) DOC_FILE_PATH \<noteq> gs DOC_FILE_PATH" by simp
  then have "gs(DOC_FILE_PATH \<mapsto> ?D') \<noteq> gs" by metis
  with run show "files (update_doc_main gs) \<noteq> gs" by simp
qed

section \<open>The claims\<close>

subsection \<open>C1: a literal anchor that is absent\<close>

text \<open>
  Claim C1 says that a literal replacement whose anchor is absent returns the content
  unchanged and that the run reports the anchor as unapplied. The first half holds. The
  second does not: apply-fixes.py keeps no record of what it replaced, and its report is
  the same whether an anchor is there or not. On the empty file, where the anchor of
  fix 3 is absent, it prints the four lines it prints on a file that has that anchor, and
  ends with the same status.
\<close>

theorem unapplied_anchor_not_reported_counterexample:
  "\<not> sublist FIX3_OLD [] \<and> sublist FIX3_OLD FIX3_OLD
   \<and> stdout (apply_fixes_main [FIXES_FILE_PATH \<mapsto> []])
       = stdout (apply_fixes_main [FIXES_FILE_PATH \<mapsto> FIX3_OLD])
   \<and> status (apply_fixes_main [FIXES_FILE_PATH \<mapsto> []])
       = status (apply_fixes_main [FIXES_FILE_PATH \<mapsto> FIX3_OLD])
   \<and> stdout (apply_fixes_main [FIXES_FILE_PATH \<mapsto> []])
       = [FIXES_DONE_MSG, FIX1_MSG, FIX2_MSG, FIX3_MSG]"
proof -
  have "\<not> sublist FIX3_OLD []" by (simp add: FIX3_OLD_def str_def)
  moreover have "sublist FIX3_OLD FIX3_OLD" by simp
  moreover have e: "read_text [FIXES_FILE_PATH \<mapsto> []] FIXES_FILE_PATH = Some []"
    by (simp add: read_text_def)
  moreover have h: "read_text [FIXES_FILE_PATH \<mapsto> FIX3_OLD] FIXES_FILE_PATH = Some FIX3_OLD"
    by (simp add: read_text_written cr_free_fixes)
  moreover note apply_fixes_report [of "[FIXES_FILE_PATH \<mapsto> []]" "[]", OF e]
    apply_fixes_report [of "[FIXES_FILE_PATH \<mapsto> FIX3_OLD]" FIX3_OLD, OF h]
  ultimately show ?thesis by simp
qed

text \<open>
  Claim C1, amended. For every content \<open>C\<close> and every literal anchor \<open>A\<close> that does not
  occur in \<open>C\<close>, the literal replacement returns \<open>C\<close> unchanged. The run does not report
  the anchor: whenever the target file can be read, apply-fixes.py prints its four fixed
  lines and ends with status 0.
\<close>

theorem absent_literal_anchor_noop:
  assumes "\<not> sublist A C"
  shows "py_replace C A R = C
       \<and> (read_text fs FIXES_FILE_PATH = Some C \<longrightarrow>
            stdout (apply_fixes_main fs) = [FIXES_DONE_MSG, FIX1_MSG, FIX2_MSG, FIX3_MSG]
          \<and> status (apply_fixes_main fs) = Exit 0)"
  using assms by (simp add: py_replace_absent apply_fixes_report)

theorem absent_literal_anchor_noop_witness:
  "\<not> sublist (str ''MISSING'') (str ''X'')
   \<and> py_replace (str ''X'') (str ''MISSING'') (str ''FOUND'') = str ''X''
   \<and> read_text [FIXES_FILE_PATH \<mapsto> str ''X''] FIXES_FILE_PATH = Some (str ''X'')
   \<and> stdout (apply_fixes_main [FIXES_FILE_PATH \<mapsto> str ''X''])
       = [FIXES_DONE_MSG, FIX1_MSG, FIX2_MSG, FIX3_MSG]
   \<and> status (apply_fixes_main [FIXES_FILE_PATH \<mapsto> str ''X'']) = Exit 0"
proof -
  have a: "\<not> sublist (str ''MISSING'') (str ''X'')" by (simp add: str_def sublist_code)
  have f: "read_text [FIXES_FILE_PATH \<mapsto> str ''X''] FIXES_FILE_PATH = Some (str ''X'')"
    by (simp add: read_text_def str_def)
  from absent_literal_anchor_noop
    [of "str ''MISSING''" "str ''X''" "str ''FOUND''" "[FIXES_FILE_PATH \<mapsto> str ''X'']", OF a] a f
  show ?thesis by simp
qed

subsection \<open>C2: a missing insertion anchor is fatal\<close>

text \<open>
  Claim C2. For every content from which the insertion anchor is absent, update-doc.py
  fails: it prints its diagnostic, exits with status 1, and writes nothing, so that the
  file system, and the target file in it, is left as it was.
\<close>

theorem missing_insertion_anchor_fails:
  assumes "read_text fs DOC_FILE_PATH = Some C" and "\<not> sublist ANCHOR C"
  shows "status (update_doc_main fs) = Exit 1 \<and> stdout (update_doc_main fs) = [ERROR_MSG]
       \<and> files (update_doc_main fs) = fs"
  using assms by (simp add: update_doc_missing)

theorem missing_insertion_anchor_fails_witness:
  "read_text [DOC_FILE_PATH \<mapsto> str ''# Token Exchange''] DOC_FILE_PATH = Some (str ''# Token Exchange'')
   \<and> \<not> sublist ANCHOR (str ''# Token Exchange'')
   \<and> status (update_doc_main [DOC_FILE_PATH \<mapsto> str ''# Token Exchange'']) = Exit 1
   \<and> stdout (update_doc_main [DOC_FILE_PATH \<mapsto> str ''# Token Exchange'']) = [ERROR_MSG]
   \<and> files (update_doc_main [DOC_FILE_PATH \<mapsto> str ''# Token Exchange''])
       = [DOC_FILE_PATH \<mapsto> str ''# Token Exchange'']"
proof -
  have f: "read_text [DOC_FILE_PATH \<mapsto> str ''# Token Exchange''] DOC_FILE_PATH = Some (str ''# Token Exchange'')"
    by (simp add: read_text_def universal_newlines_id cr_free_doc cr_free_fixes str_def)
  have a: "\<not> sublist ANCHOR (str ''# Token Exchange'')"
    by (simp add: ANCHOR_def str_def nl_def check_mark_def sublist_code)
  from missing_insertion_anchor_fails
    [of "[DOC_FILE_PATH \<mapsto> str ''# Token Exchange'']" "str ''# Token Exchange''", OF f a] f a show ?thesis by simp
qed

subsection \<open>C3: where the block is inserted\<close>

text \<open>
  Claim C3 says that the block is placed immediately after the end of the anchor. The
  anchor is the string the script searches for, and it ends with the heading
  \<open>## Key Decisions\<close>; the script puts the block before that heading, inside the anchor.
  On the file that holds the anchor and nothing else, the anchor ends at offset 80; the
  text at that offset of the output is not the block, which begins at offset 63.
\<close>

theorem block_before_anchor_end_counterexample:
  "files (update_doc_main [DOC_FILE_PATH \<mapsto> ANCHOR]) DOC_FILE_PATH
     = Some (ANCHOR_HEAD @ PHASE_72_DOC @ ANCHOR_TAIL)
   \<and> take (length PHASE_72_DOC) (drop (length ANCHOR) (ANCHOR_HEAD @ PHASE_72_DOC @ ANCHOR_TAIL))
       \<noteq> PHASE_72_DOC
   \<and> take (length PHASE_72_DOC) (drop (length ANCHOR_HEAD) (ANCHOR_HEAD @ PHASE_72_DOC @ ANCHOR_TAIL))
       = PHASE_72_DOC"
proof -
  have "drop (length ANCHOR) (ANCHOR_HEAD @ PHASE_72_DOC @ ANCHOR_TAIL)
          = drop 17 PHASE_72_DOC @ ANCHOR_TAIL"
    by (simp add: length_anchor length_anchor_head length_doc)
  moreover have "drop 17 PHASE_72_DOC \<noteq> []" by (simp add: length_doc)
  ultimately have "hd (take (length PHASE_72_DOC) (drop (length ANCHOR) (ANCHOR_HEAD @ PHASE_72_DOC @ ANCHOR_TAIL)))
          = hd (drop 17 PHASE_72_DOC)"
    by (simp add: length_doc hd_take del: hd_drop_conv_nth)
  with doc_at_17 have "take (length PHASE_72_DOC) (drop (length ANCHOR) (ANCHOR_HEAD @ PHASE_72_DOC @ ANCHOR_TAIL))
       \<noteq> PHASE_72_DOC" by metis
  with update_doc_anchor_only show ?thesis by simp
qed

text \<open>
  Claim C3, amended. For every content that contains the anchor, the block is placed
  inside the first occurrence of the anchor, 17 characters before its end: between the
  anchor's first 63 characters and its last 17, the line break and the heading
  \<open>## Key Decisions\<close>. The output is the text before the anchor, the head of the anchor,
  the block, the tail of the anchor and the text after the anchor, in this order, nothing
  duplicated and nothing reordered.
\<close>

theorem block_inside_anchor:
  assumes "read_text fs DOC_FILE_PATH = Some C" and "sublist ANCHOR C"
  shows "\<exists>pre post. C = pre @ ANCHOR_HEAD @ ANCHOR_TAIL @ post
           \<and> py_find C ANCHOR = int (length pre)
           \<and> files (update_doc_main fs) DOC_FILE_PATH
               = Some (pre @ ANCHOR_HEAD @ PHASE_72_DOC @ ANCHOR_TAIL @ post)
           \<and> ANCHOR = ANCHOR_HEAD @ ANCHOR_TAIL \<and> length ANCHOR_TAIL = 17"
proof -
  from sublist_first_at [OF assms(2)] obtain i
    where f: "py_find C ANCHOR = int i" and i: "first_at ANCHOR C i" by blast
  from first_at_split [OF i]
  have C: "C = take i C @ ANCHOR_HEAD @ ANCHOR_TAIL @ drop (i + length ANCHOR) C"
    by (simp add: anchor_split)
  from i have "length (take i C) = i" by (simp add: first_at_def)
  with f have "py_find C ANCHOR = int (length (take i C))" by simp
  moreover have "files (update_doc_main fs) DOC_FILE_PATH
      = Some (take i C @ ANCHOR_HEAD @ PHASE_72_DOC @ ANCHOR_TAIL @ drop (i + length ANCHOR) C)"
    using update_doc_found [of fs C i, OF assms(1) i] by simp
  ultimately show ?thesis using C anchor_split length_anchor_tail by blast
qed

theorem block_inside_anchor_witness:
  "read_text [DOC_FILE_PATH \<mapsto> ANCHOR] DOC_FILE_PATH = Some ANCHOR \<and> sublist ANCHOR ANCHOR
   \<and> (\<exists>pre post. ANCHOR = pre @ ANCHOR_HEAD @ ANCHOR_TAIL @ post
           \<and> py_find ANCHOR ANCHOR = int (length pre)
           \<and> files (update_doc_main [DOC_FILE_PATH \<mapsto> ANCHOR]) DOC_FILE_PATH
               = Some (pre @ ANCHOR_HEAD @ PHASE_72_DOC @ ANCHOR_TAIL @ post)
           \<and> ANCHOR = ANCHOR_HEAD @ ANCHOR_TAIL \<and> length ANCHOR_TAIL = 17)"
proof -
  have f: "read_text [DOC_FILE_PATH \<mapsto> ANCHOR] DOC_FILE_PATH = Some ANCHOR" by (simp add: read_text_def universal_newlines_id cr_free_doc cr_free_fixes str_def)
  have a: "sublist ANCHOR ANCHOR" by simp
  from block_inside_anchor [of "[DOC_FILE_PATH \<mapsto> ANCHOR]" ANCHOR, OF f a] f a
  show ?thesis by blast
qed

subsection \<open>C4: all or nothing\<close>

text \<open>
  Claim C4. A run that does not end with status 0 has written nothing: the file system
  is as it was. This is so when the target file cannot be read and when the pattern of
  the regular-expression fix does not compile, both of which end the run with an
  uncaught exception before the file is opened for writing, and when update-doc.py does
  not find its anchor. A run that ends with status 0 has written the target file once,
  with the complete result: the content after all three fixes, or the content with the
  block inserted.
\<close>

theorem all_or_nothing:
  "(status (apply_fixes pattern fs) \<noteq> Exit 0 \<longrightarrow> files (apply_fixes pattern fs) = fs)
   \<and> (status (apply_fixes pattern fs) = Exit 0 \<longrightarrow>
        (\<exists>C C'. read_text fs FIXES_FILE_PATH = Some C
           \<and> re_sub pattern FIX2_REPL (literal_fixes C) = Inr C'
           \<and> files (apply_fixes pattern fs) = fs(FIXES_FILE_PATH \<mapsto> C')))
   \<and> (read_text fs FIXES_FILE_PATH = None \<longrightarrow> status (apply_fixes pattern fs) = Uncaught IOError)
   \<and> (read_text fs FIXES_FILE_PATH \<noteq> None \<and> re_compile pattern = Inl PatternError \<longrightarrow>
        status (apply_fixes pattern fs) = Uncaught PatternError)
   \<and> (status (update_doc_main fs) \<noteq> Exit 0 \<longrightarrow> files (update_doc_main fs) = fs)
   \<and> (status (update_doc_main fs) = Exit 0 \<longrightarrow>
        (\<exists>C i. read_text fs DOC_FILE_PATH = Some C \<and> py_find C ANCHOR = int i
           \<and> files (update_doc_main fs) = fs(DOC_FILE_PATH \<mapsto> new_content C (int i))))
   \<and> (read_text fs DOC_FILE_PATH = None \<longrightarrow> status (update_doc_main fs) = Uncaught IOError)"
proof -
  have a1: "status (apply_fixes pattern fs) \<noteq> Exit 0 \<longrightarrow> files (apply_fixes pattern fs) = fs"
    using apply_fixes_cases [of fs pattern] by auto
  have a2: "status (apply_fixes pattern fs) = Exit 0 \<longrightarrow>
        (\<exists>C C'. read_text fs FIXES_FILE_PATH = Some C
           \<and> re_sub pattern FIX2_REPL (literal_fixes C) = Inr C'
           \<and> files (apply_fixes pattern fs) = fs(FIXES_FILE_PATH \<mapsto> C'))"
    using apply_fixes_cases [of fs pattern] by auto
  have a3: "read_text fs FIXES_FILE_PATH = None \<longrightarrow> status (apply_fixes pattern fs) = Uncaught IOError"
    by (simp add: apply_fixes_unreadable)
  have a4: "read_text fs FIXES_FILE_PATH \<noteq> None \<and> re_compile pattern = Inl PatternError \<longrightarrow>
        status (apply_fixes pattern fs) = Uncaught PatternError"
    by (auto simp: apply_fixes_bad_pattern)
  have u1: "status (update_doc_main fs) \<noteq> Exit 0 \<longrightarrow> files (update_doc_main fs) = fs"
    using update_doc_cases [of fs] by auto
  have u2: "status (update_doc_main fs) = Exit 0 \<longrightarrow>
        (\<exists>C i. read_text fs DOC_FILE_PATH = Some C \<and> py_find C ANCHOR = int i
           \<and> files (update_doc_main fs) = fs(DOC_FILE_PATH \<mapsto> new_content C (int i)))"
    using update_doc_cases [of fs] by auto
  have u3: "read_text fs DOC_FILE_PATH = None \<longrightarrow> status (update_doc_main fs) = Uncaught IOError"
    by (simp add: update_doc_unreadable)
  from a1 a2 a3 a4 u1 u2 u3 show ?thesis by blast
qed

theorem all_or_nothing_witness:
  "re_compile backslash = Inl PatternError
   \<and> status (apply_fixes backslash [FIXES_FILE_PATH \<mapsto> FIX3_OLD]) = Uncaught PatternError
   \<and> files (apply_fixes backslash [FIXES_FILE_PATH \<mapsto> FIX3_OLD]) = [FIXES_FILE_PATH \<mapsto> FIX3_OLD]
   \<and> status (update_doc_main [FIXES_FILE_PATH \<mapsto> FIX3_OLD]) = Uncaught IOError
   \<and> files (update_doc_main [FIXES_FILE_PATH \<mapsto> FIX3_OLD]) = [FIXES_FILE_PATH \<mapsto> FIX3_OLD]
   \<and> status (apply_fixes FIX2_PATTERN [FIXES_FILE_PATH \<mapsto> FIX3_OLD]) = Exit 0
   \<and> (\<exists>C C'. read_text [FIXES_FILE_PATH \<mapsto> FIX3_OLD] FIXES_FILE_PATH = Some C
         \<and> re_sub FIX2_PATTERN FIX2_REPL (literal_fixes C) = Inr C'
         \<and> files (apply_fixes FIX2_PATTERN [FIXES_FILE_PATH \<mapsto> FIX3_OLD])
             = [FIXES_FILE_PATH \<mapsto> FIX3_OLD](FIXES_FILE_PATH \<mapsto> C'))
   \<and> status (apply_fixes FIX2_PATTERN [DOC_FILE_PATH \<mapsto> ANCHOR]) = Uncaught IOError
   \<and> files (apply_fixes FIX2_PATTERN [DOC_FILE_PATH \<mapsto> ANCHOR]) = [DOC_FILE_PATH \<mapsto> ANCHOR]
   \<and> status (update_doc_main [DOC_FILE_PATH \<mapsto> ANCHOR]) = Exit 0
   \<and> (\<exists>C i. read_text [DOC_FILE_PATH \<mapsto> ANCHOR] DOC_FILE_PATH = Some C \<and> py_find C ANCHOR = int i
         \<and> files (update_doc_main [DOC_FILE_PATH \<mapsto> ANCHOR])
             = [DOC_FILE_PATH \<mapsto> ANCHOR](DOC_FILE_PATH \<mapsto> new_content C (int i)))
   \<and> status (update_doc_main [DOC_FILE_PATH \<mapsto> []]) = Exit 1
   \<and> files (update_doc_main [DOC_FILE_PATH \<mapsto> []]) = [DOC_FILE_PATH \<mapsto> []]"
proof -
  have f: "read_text [FIXES_FILE_PATH \<mapsto> FIX3_OLD] FIXES_FILE_PATH \<noteq> None" by (simp add: read_text_def universal_newlines_id cr_free_doc cr_free_fixes str_def)
  have g: "read_text [FIXES_FILE_PATH \<mapsto> FIX3_OLD] DOC_FILE_PATH = None" using paths_differ by (simp add: read_text_def universal_newlines_id cr_free_doc cr_free_fixes str_def)
  have h: "read_text [DOC_FILE_PATH \<mapsto> ANCHOR] FIXES_FILE_PATH = None" using paths_differ by (simp add: read_text_def universal_newlines_id cr_free_doc cr_free_fixes str_def)
  have s: "status (update_doc_main [DOC_FILE_PATH \<mapsto> ANCHOR]) = Exit 0"
    using update_doc_found [of "[DOC_FILE_PATH \<mapsto> ANCHOR]" ANCHOR 0]
    by (simp add: first_at_prefix read_text_written cr_free_doc)
  have a: "status (apply_fixes FIX2_PATTERN [FIXES_FILE_PATH \<mapsto> FIX3_OLD]) = Exit 0"
    using apply_fixes_report [of "[FIXES_FILE_PATH \<mapsto> FIX3_OLD]" FIX3_OLD]
    by (simp add: apply_fixes_main_def read_text_written cr_free_fixes)
  have e: "status (update_doc_main [DOC_FILE_PATH \<mapsto> []]) = Exit 1"
    using update_doc_missing [of "[DOC_FILE_PATH \<mapsto> []]" "[]"] anchor_nonempty
    by (simp add: read_text_def)
  note t1 = all_or_nothing [of backslash "[FIXES_FILE_PATH \<mapsto> FIX3_OLD]"]
  note t2 = all_or_nothing [of FIX2_PATTERN "[DOC_FILE_PATH \<mapsto> ANCHOR]"]
  note t3 = all_or_nothing [of FIX2_PATTERN "[FIXES_FILE_PATH \<mapsto> FIX3_OLD]"]
  note t4 = all_or_nothing [of FIX2_PATTERN "[DOC_FILE_PATH \<mapsto> []]"]
  have "status (apply_fixes backslash [FIXES_FILE_PATH \<mapsto> FIX3_OLD]) = Uncaught PatternError"
    using t1 f lone_backslash by blast
  moreover from this t1 have "files (apply_fixes backslash [FIXES_FILE_PATH \<mapsto> FIX3_OLD]) = [FIXES_FILE_PATH \<mapsto> FIX3_OLD]"
    by simp
  moreover have "status (update_doc_main [FIXES_FILE_PATH \<mapsto> FIX3_OLD]) = Uncaught IOError"
    using t1 g by blast
  moreover from this t1 have "files (update_doc_main [FIXES_FILE_PATH \<mapsto> FIX3_OLD]) = [FIXES_FILE_PATH \<mapsto> FIX3_OLD]"
    by simp
  moreover from a t3 have "\<exists>C C'. read_text [FIXES_FILE_PATH \<mapsto> FIX3_OLD] FIXES_FILE_PATH = Some C
         \<and> re_sub FIX2_PATTERN FIX2_REPL (literal_fixes C) = Inr C'
         \<and> files (apply_fixes FIX2_PATTERN [FIXES_FILE_PATH \<mapsto> FIX3_OLD])
             = [FIXES_FILE_PATH \<mapsto> FIX3_OLD](FIXES_FILE_PATH \<mapsto> C')"
    by blast
  moreover have "status (apply_fixes FIX2_PATTERN [DOC_FILE_PATH \<mapsto> ANCHOR]) = Uncaught IOError"
    using t2 h by blast
  moreover from this t2 have "files (apply_fixes FIX2_PATTERN [DOC_FILE_PATH \<mapsto> ANCHOR]) = [DOC_FILE_PATH \<mapsto> ANCHOR]"
    by simp
  moreover from s t2 have "\<exists>C i. read_text [DOC_FILE_PATH \<mapsto> ANCHOR] DOC_FILE_PATH = Some C \<and> py_find C ANCHOR = int i
         \<and> files (update_doc_main [DOC_FILE_PATH \<mapsto> ANCHOR])
             = [DOC_FILE_PATH \<mapsto> ANCHOR](DOC_FILE_PATH \<mapsto> new_content C (int i))"
    by blast
  moreover from e t4 have "files (update_doc_main [DOC_FILE_PATH \<mapsto> []]) = [DOC_FILE_PATH \<mapsto> []]"
    by simp
  ultimately show ?thesis using lone_backslash s a e by blast
qed

subsection \<open>C5: running a job again on the file it has patched\<close>

text \<open>
  Claim C5 says that a second run on a patched file reports its anchors as unapplied and
  leaves the content as it is. For update-doc.py this fails where the anchor occurs
  more than once: only the first occurrence is used up, and on the file that holds the
  anchor twice the second run finds the second occurrence, ends with status 0 and
  changes the file again. For apply-fixes.py the report fails: its second run prints what
  its first run printed.
\<close>

theorem rerun_changes_file_counterexample:
  "files (update_doc_main (files (update_doc_main [DOC_FILE_PATH \<mapsto> ANCHOR @ ANCHOR])))
     \<noteq> files (update_doc_main [DOC_FILE_PATH \<mapsto> ANCHOR @ ANCHOR])
   \<and> status (update_doc_main (files (update_doc_main [DOC_FILE_PATH \<mapsto> ANCHOR @ ANCHOR]))) = Exit 0
   \<and> stdout (apply_fixes_main (files (apply_fixes_main [FIXES_FILE_PATH \<mapsto> FIX3_OLD])))
       = stdout (apply_fixes_main [FIXES_FILE_PATH \<mapsto> FIX3_OLD])
   \<and> status (apply_fixes_main (files (apply_fixes_main [FIXES_FILE_PATH \<mapsto> FIX3_OLD]))) = Exit 0"
proof -
  let ?gs = "[DOC_FILE_PATH \<mapsto> ANCHOR @ ANCHOR]"
  let ?D' = "ANCHOR_HEAD @ PHASE_72_DOC @ ANCHOR_TAIL @ ANCHOR"
  have g: "read_text ?gs DOC_FILE_PATH = Some (ANCHOR @ ANCHOR)"
    by (simp add: read_text_written cr_free_doc)
  have a: "first_at ANCHOR (ANCHOR @ ANCHOR) 0" by (simp add: first_at_prefix)
  from update_doc_found [of ?gs "ANCHOR @ ANCHOR" 0, OF g a]
  have f: "files (update_doc_main ?gs) = ?gs(DOC_FILE_PATH \<mapsto> ?D')" by simp
  then have r: "files (update_doc_main ?gs) DOC_FILE_PATH = Some ?D'" by simp
  have "?D' = (ANCHOR_HEAD @ PHASE_72_DOC @ ANCHOR_TAIL) @ ANCHOR @ []" by simp
  then have s: "sublist ANCHOR ?D'" unfolding sublist_def by blast
  have c: "13 \<notin> set ?D'" by (simp add: cr_free_doc)
  note u = update_doc_found_grows [of "files (update_doc_main ?gs)" ?D', OF r c s]
  let ?fs = "[FIXES_FILE_PATH \<mapsto> FIX3_OLD]"
  have h: "read_text ?fs FIXES_FILE_PATH = Some FIX3_OLD"
    by (simp add: read_text_written cr_free_fixes)
  note v = apply_fixes_rerun [of ?fs FIX3_OLD, OF h] apply_fixes_report [of ?fs FIX3_OLD, OF h]
  from u v show ?thesis by simp
qed

text \<open>
  Claim C5, amended. Running apply-fixes.py again on a file it has patched leaves the
  content unchanged, for every content: none of its three anchors occurs in the patched
  text, and the second run writes the same text back; it does not report the anchors as
  unapplied, it prints its four fixed lines and ends with status 0. Running update-doc.py
  again on a file it has patched, in which the anchor occurred exactly once, finds no
  anchor in the patched text: it prints its diagnostic, ends with status 1 and leaves the
  file as it is.
\<close>

theorem rerun_on_patched_file:
  "(read_text fs FIXES_FILE_PATH = Some C \<longrightarrow>
      (\<exists>C'. files (apply_fixes_main fs) = fs(FIXES_FILE_PATH \<mapsto> C')
         \<and> \<not> sublist FIX3_OLD C' \<and> \<not> sublist FIX1_OLD C' \<and> \<not> sublist FIX2_LITERAL C')
    \<and> files (apply_fixes_main (files (apply_fixes_main fs))) = files (apply_fixes_main fs)
    \<and> stdout (apply_fixes_main (files (apply_fixes_main fs)))
        = [FIXES_DONE_MSG, FIX1_MSG, FIX2_MSG, FIX3_MSG]
    \<and> status (apply_fixes_main (files (apply_fixes_main fs))) = Exit 0)
   \<and> (read_text gs DOC_FILE_PATH = Some D \<and> (\<exists>!i. occurs_at ANCHOR D i) \<longrightarrow>
      status (update_doc_main gs) = Exit 0
    \<and> (\<exists>D'. files (update_doc_main gs) = gs(DOC_FILE_PATH \<mapsto> D') \<and> \<not> sublist ANCHOR D')
    \<and> files (update_doc_main (files (update_doc_main gs))) = files (update_doc_main gs)
    \<and> stdout (update_doc_main (files (update_doc_main gs))) = [ERROR_MSG]
    \<and> status (update_doc_main (files (update_doc_main gs))) = Exit 1)"
proof (intro conjI impI)
  assume f: "read_text fs FIXES_FILE_PATH = Some C"
  from apply_fixes_main_files [of fs C, OF f] all_fixes_anchor_free [of C]
  show "\<exists>C'. files (apply_fixes_main fs) = fs(FIXES_FILE_PATH \<mapsto> C')
         \<and> \<not> sublist FIX3_OLD C' \<and> \<not> sublist FIX1_OLD C' \<and> \<not> sublist FIX2_LITERAL C'"
    by blast
  from apply_fixes_rerun [of fs C, OF f]
  show "files (apply_fixes_main (files (apply_fixes_main fs))) = files (apply_fixes_main fs)"
    and "stdout (apply_fixes_main (files (apply_fixes_main fs)))
        = [FIXES_DONE_MSG, FIX1_MSG, FIX2_MSG, FIX3_MSG]"
    and "status (apply_fixes_main (files (apply_fixes_main fs))) = Exit 0" by simp_all
next
  assume "read_text gs DOC_FILE_PATH = Some D \<and> (\<exists>!i. occurs_at ANCHOR D i)"
  then have g: "read_text gs DOC_FILE_PATH = Some D" and o: "\<exists>!i. occurs_at ANCHOR D i" by simp_all
  from update_doc_rerun [of gs D, OF g o]
  show "status (update_doc_main gs) = Exit 0"
    and "\<exists>D'. files (update_doc_main gs) = gs(DOC_FILE_PATH \<mapsto> D') \<and> \<not> sublist ANCHOR D'"
    and "files (update_doc_main (files (update_doc_main gs))) = files (update_doc_main gs)"
    and "stdout (update_doc_main (files (update_doc_main gs))) = [ERROR_MSG]"
    and "status (update_doc_main (files (update_doc_main gs))) = Exit 1" by simp_all
qed

theorem rerun_on_patched_file_witness:
  "read_text [FIXES_FILE_PATH \<mapsto> FIX3_OLD] FIXES_FILE_PATH = Some FIX3_OLD
   \<and> files (apply_fixes_main (files (apply_fixes_main [FIXES_FILE_PATH \<mapsto> FIX3_OLD])))
       = files (apply_fixes_main [FIXES_FILE_PATH \<mapsto> FIX3_OLD])
   \<and> status (apply_fixes_main (files (apply_fixes_main [FIXES_FILE_PATH \<mapsto> FIX3_OLD]))) = Exit 0
   \<and> read_text [DOC_FILE_PATH \<mapsto> ANCHOR] DOC_FILE_PATH = Some ANCHOR
   \<and> (\<exists>!i. occurs_at ANCHOR ANCHOR i)
   \<and> status (update_doc_main [DOC_FILE_PATH \<mapsto> ANCHOR]) = Exit 0
   \<and> files (update_doc_main (files (update_doc_main [DOC_FILE_PATH \<mapsto> ANCHOR])))
       = files (update_doc_main [DOC_FILE_PATH \<mapsto> ANCHOR])
   \<and> stdout (update_doc_main (files (update_doc_main [DOC_FILE_PATH \<mapsto> ANCHOR]))) = [ERROR_MSG]
   \<and> status (update_doc_main (files (update_doc_main [DOC_FILE_PATH \<mapsto> ANCHOR]))) = Exit 1"
proof -
  have f: "read_text [FIXES_FILE_PATH \<mapsto> FIX3_OLD] FIXES_FILE_PATH = Some FIX3_OLD" by (simp add: read_text_def universal_newlines_id cr_free_doc cr_free_fixes str_def)
  have g: "read_text [DOC_FILE_PATH \<mapsto> ANCHOR] DOC_FILE_PATH = Some ANCHOR" by (simp add: read_text_def universal_newlines_id cr_free_doc cr_free_fixes str_def)
  have o: "\<exists>!i. occurs_at ANCHOR ANCHOR i" by (simp add: occurs_at_self)
  from rerun_on_patched_file
    [of "[FIXES_FILE_PATH \<mapsto> FIX3_OLD]" FIX3_OLD "[DOC_FILE_PATH \<mapsto> ANCHOR]" ANCHOR] f g o
  show ?thesis by blast
qed

subsection \<open>C6: exit status and report\<close>

text \<open>
  Claim C6 says that a run exits non-zero with a diagnostic when the anchor of the
  mandatory insertion is missing, and exits zero with a warning list of the missing
  anchors when only literal anchors are missing. The second half fails: on a file that
  has none of the three anchors apply-fixes.py exits zero and prints its four fixed
  lines, and no list of anchors.
\<close>

theorem no_warning_list_counterexample:
  "\<not> sublist FIX3_OLD (str ''const x = 1;'') \<and> \<not> sublist FIX1_OLD (str ''const x = 1;'')
   \<and> \<not> sublist FIX2_LITERAL (str ''const x = 1;'')
   \<and> status (apply_fixes_main [FIXES_FILE_PATH \<mapsto> str ''const x = 1;'']) = Exit 0
   \<and> stdout (apply_fixes_main [FIXES_FILE_PATH \<mapsto> str ''const x = 1;''])
       = [FIXES_DONE_MSG, FIX1_MSG, FIX2_MSG, FIX3_MSG]"
proof -
  have "\<not> sublist FIX3_OLD (str ''const x = 1;'')"
    by (simp add: FIX3_OLD_def str_def nl_def sublist_code)
  moreover have "\<not> sublist FIX1_OLD (str ''const x = 1;'')"
    by (simp add: FIX1_OLD_def str_def nl_def apostrophe_def sublist_code)
  moreover have "\<not> sublist FIX2_LITERAL (str ''const x = 1;'')"
    by (simp add: FIX2_LITERAL_def str_def sublist_code)
  moreover have "read_text [FIXES_FILE_PATH \<mapsto> str ''const x = 1;''] FIXES_FILE_PATH
      = Some (str ''const x = 1;'')"
    by (simp add: read_text_def str_def)
  from apply_fixes_report [OF this]
  have "stdout (apply_fixes_main [FIXES_FILE_PATH \<mapsto> str ''const x = 1;''])
          = [FIXES_DONE_MSG, FIX1_MSG, FIX2_MSG, FIX3_MSG]
        \<and> status (apply_fixes_main [FIXES_FILE_PATH \<mapsto> str ''const x = 1;'']) = Exit 0" .
  ultimately show ?thesis by simp
qed

text \<open>
  Claim C6, amended. When the anchor of the insertion is missing, update-doc.py prints
  its diagnostic and exits with status 1. Whenever its target file can be read,
  apply-fixes.py exits with status 0 and prints its four fixed lines, whichever of its
  anchors are missing; it prints no list of them.
\<close>

theorem exit_status_and_report:
  "(read_text fs DOC_FILE_PATH = Some C \<and> \<not> sublist ANCHOR C \<longrightarrow>
      status (update_doc_main fs) = Exit 1 \<and> stdout (update_doc_main fs) = [ERROR_MSG])
   \<and> (read_text gs FIXES_FILE_PATH = Some D \<longrightarrow>
      status (apply_fixes_main gs) = Exit 0
      \<and> stdout (apply_fixes_main gs) = [FIXES_DONE_MSG, FIX1_MSG, FIX2_MSG, FIX3_MSG])"
  by (simp add: update_doc_missing apply_fixes_report)

theorem exit_status_and_report_witness:
  "read_text [DOC_FILE_PATH \<mapsto> str ''## Key Decisions''] DOC_FILE_PATH = Some (str ''## Key Decisions'')
   \<and> \<not> sublist ANCHOR (str ''## Key Decisions'')
   \<and> status (update_doc_main [DOC_FILE_PATH \<mapsto> str ''## Key Decisions'']) = Exit 1
   \<and> stdout (update_doc_main [DOC_FILE_PATH \<mapsto> str ''## Key Decisions'']) = [ERROR_MSG]
   \<and> read_text [FIXES_FILE_PATH \<mapsto> str ''let y;''] FIXES_FILE_PATH = Some (str ''let y;'')
   \<and> status (apply_fixes_main [FIXES_FILE_PATH \<mapsto> str ''let y;'']) = Exit 0
   \<and> stdout (apply_fixes_main [FIXES_FILE_PATH \<mapsto> str ''let y;''])
       = [FIXES_DONE_MSG, FIX1_MSG, FIX2_MSG, FIX3_MSG]"
proof -
  have f: "read_text [DOC_FILE_PATH \<mapsto> str ''## Key Decisions''] DOC_FILE_PATH = Some (str ''## Key Decisions'')"
    by (simp add: read_text_def universal_newlines_id cr_free_doc cr_free_fixes str_def)
  have a: "\<not> sublist ANCHOR (str ''## Key Decisions'')"
    by (simp add: ANCHOR_def str_def nl_def check_mark_def sublist_code)
  have g: "read_text [FIXES_FILE_PATH \<mapsto> str ''let y;''] FIXES_FILE_PATH = Some (str ''let y;'')" by (simp add: read_text_def universal_newlines_id cr_free_doc cr_free_fixes str_def)
  from exit_status_and_report
    [of "[DOC_FILE_PATH \<mapsto> str ''## Key Decisions'']" "str ''## Key Decisions''"
        "[FIXES_FILE_PATH \<mapsto> str ''let y;'']" "str ''let y;''"] f a g
  show ?thesis by simp
qed

subsection \<open>C7: a literal patch replaces the first occurrence of its anchor\<close>

text \<open>
  Claim C7 says that, for every content and every anchor \<open>A\<close> present in it, the literal
  replacement puts \<open>R\<close> in place of the first occurrence of \<open>A\<close>, and that \<open>A\<close> no longer
  appears at that offset. The second half fails where \<open>R\<close> begins with \<open>A\<close>: replacing
  \<open>Y\<close> by \<open>Y2\<close> in the three lines \<open>X\<close>, \<open>Y\<close>, \<open>Z\<close> gives \<open>X\<close>, \<open>Y2\<close>, \<open>Z\<close>, where \<open>Y\<close> still
  stands at offset 2, the offset of its first occurrence.
\<close>

theorem anchor_still_at_offset_counterexample:
  "sublist (str ''Y'') (str ''X'' @ nl @ str ''Y'' @ nl @ str ''Z'')
   \<and> py_find (str ''X'' @ nl @ str ''Y'' @ nl @ str ''Z'') (str ''Y'') = 2
   \<and> py_replace (str ''X'' @ nl @ str ''Y'' @ nl @ str ''Z'') (str ''Y'') (str ''Y2'')
       = str ''X'' @ nl @ str ''Y2'' @ nl @ str ''Z''
   \<and> prefix (str ''Y'')
        (drop 2 (py_replace (str ''X'' @ nl @ str ''Y'' @ nl @ str ''Z'') (str ''Y'') (str ''Y2'')))"
  by (simp add: str_def nl_def sublist_code py_find_def py_replace.simps)

text \<open>
  Claim C7, amended. For every content \<open>C\<close> and every anchor \<open>A\<close> present in \<open>C\<close>, first at
  offset \<open>i\<close>, the literal replacement leaves the text before offset \<open>i\<close> as it is and puts
  \<open>R\<close> at offset \<open>i\<close>, in place of that occurrence; where \<open>A\<close> is not empty, the result is
  that text, then \<open>R\<close>, then the rest of the content with its occurrences replaced.
  Where \<open>R\<close> is at least as long as \<open>A\<close> and does not begin with \<open>A\<close>, \<open>A\<close> no longer stands
  at offset \<open>i\<close> of the result. Both literal patches of the script are of this kind.
\<close>

theorem literal_patch_replaces_first_occurrence:
  assumes "sublist A C"
  shows "(\<exists>i. py_find C A = int i
           \<and> take i (py_replace C A R) = take i C
           \<and> prefix R (drop i (py_replace C A R))
           \<and> (A \<noteq> [] \<longrightarrow>
                py_replace C A R = take i C @ R @ py_replace (drop (i + length A) C) A R)
           \<and> (length A \<le> length R \<and> \<not> prefix A R \<longrightarrow>
                \<not> prefix A (drop i (py_replace C A R))))
       \<and> length FIX3_OLD \<le> length FIX3_NEW \<and> \<not> prefix FIX3_OLD FIX3_NEW
       \<and> length FIX1_OLD \<le> length FIX1_NEW \<and> \<not> prefix FIX1_OLD FIX1_NEW"
proof (cases "A = []")
  case True
  have "py_find C [] = 0" by (cases C) (simp_all add: py_find_def)
  moreover have "prefix R (interleave R C)" by (cases C) simp_all
  ultimately show ?thesis using True fix3_facts fix1_facts
    by (simp add: py_replace_empty)
next
  case False
  from sublist_first_at [OF assms] obtain i
    where f: "py_find C A = int i" and i: "first_at A C i" by blast
  let ?rest = "py_replace (drop (i + length A) C) A R"
  have r: "py_replace C A R = take i C @ R @ ?rest"
    using False i by (rule py_replace_first)
  from i have l: "length (take i C) = i" by (simp add: first_at_def)
  then have d: "drop i (take i C @ R @ ?rest) = R @ ?rest" by simp
  from l have t: "take i (take i C @ R @ ?rest) = take i C" by simp
  have n: "length A \<le> length R \<and> \<not> prefix A R \<longrightarrow> \<not> prefix A (R @ ?rest)"
    using not_prefix_append [of A R ?rest] by blast
  from f r d t n have "\<exists>i. py_find C A = int i
           \<and> take i (py_replace C A R) = take i C
           \<and> prefix R (drop i (py_replace C A R))
           \<and> (A \<noteq> [] \<longrightarrow>
                py_replace C A R = take i C @ R @ py_replace (drop (i + length A) C) A R)
           \<and> (length A \<le> length R \<and> \<not> prefix A R \<longrightarrow>
                \<not> prefix A (drop i (py_replace C A R)))"
    by (intro exI [of _ i]) simp
  with fix3_facts fix1_facts show ?thesis by blast
qed

theorem literal_patch_replaces_first_occurrence_witness:
  "sublist FIX3_OLD (str ''{'' @ FIX3_OLD @ str ''}'')
   \<and> FIX3_OLD \<noteq> [] \<and> length FIX3_OLD \<le> length FIX3_NEW \<and> \<not> prefix FIX3_OLD FIX3_NEW
   \<and> (\<exists>i. py_find (str ''{'' @ FIX3_OLD @ str ''}'') FIX3_OLD = int i
        \<and> py_replace (str ''{'' @ FIX3_OLD @ str ''}'') FIX3_OLD FIX3_NEW
            = take i (str ''{'' @ FIX3_OLD @ str ''}'') @ FIX3_NEW
                @ py_replace (drop (i + length FIX3_OLD) (str ''{'' @ FIX3_OLD @ str ''}'')) FIX3_OLD FIX3_NEW
        \<and> \<not> prefix FIX3_OLD (drop i (py_replace (str ''{'' @ FIX3_OLD @ str ''}'') FIX3_OLD FIX3_NEW)))"
proof -
  have a: "sublist FIX3_OLD (str ''{'' @ FIX3_OLD @ str ''}'')" by (simp add: sublist_appendI)
  from literal_patch_replaces_first_occurrence
    [of FIX3_OLD "str ''{'' @ FIX3_OLD @ str ''}''" FIX3_NEW, OF a] a fix3_facts
  show ?thesis by auto
qed

subsection \<open>C8: regular-expression substitution\<close>



subsection \<open>C9: every occurrence of a literal anchor is replaced\<close>

text \<open>
  Claim C9. For every content in which the literal anchor occurs more than once (or
  once, or not at all), \<open>content.replace(old, new)\<close> puts \<open>new\<close> for every
  non-overlapping occurrence of \<open>old\<close>, taken from left to right, and not only for the
  first: its result is the one and only text that \<open>replaced_all\<close> allows for the
  matches that are equal to \<open>old\<close>.
\<close>

theorem str_replace_all_occurrences:
  assumes "old \<noteq> []"
  shows "replaced_all (\<lambda>m. m = old) new s out \<longleftrightarrow> out = py_replace s old new"
proof
  assume "replaced_all (\<lambda>m. m = old) new s out"
  moreover have "replaced_all (\<lambda>m. m = old) new s (py_replace s old new)"
    using assms by (rule py_replace_replaced_all)
  ultimately show "out = py_replace s old new"
    by (rule replaced_all_unique [where n = "length old", rotated]) simp
next
  assume "out = py_replace s old new"
  with assms show "replaced_all (\<lambda>m. m = old) new s out"
    by (simp add: py_replace_replaced_all)
qed

theorem str_replace_all_occurrences_witness:
  "str ''Y'' \<noteq> [] \<and> replaced_all (\<lambda>m. m = str ''Y'') (str ''Y2'') (str ''XYZY'') (str ''XY2ZY2'')"
proof -
  have ne: "str ''Y'' \<noteq> []" by (simp add: str_def)
  have "py_replace (str ''XYZY'') (str ''Y'') (str ''Y2'') = str ''XY2ZY2''"
    by (simp add: str_def py_replace.simps)
  with str_replace_all_occurrences [OF ne, of "str ''Y2''" "str ''XYZY''" "str ''XY2ZY2''"] ne
  show ?thesis by simp
qed

subsection \<open>C10: the insertion changes nothing else\<close>

text \<open>
  Claim C10 says that, when the anchor is found, the output file is the input file with
  the block inserted at one offset, every byte before and after it preserved, and that
  the output is as long as the input and the block together. This fails for a file with
  carriage returns: the script reads the file in text mode and works on the text with
  the line ends translated, and it is this text that it writes back. On the file that
  holds the anchor with every line ended by a carriage return and a line feed, 84
  characters, the anchor is found in the text read, 80 characters, and the file
  written has 80 + 2014 characters, four fewer than the claim says.
\<close>

theorem carriage_returns_lost_counterexample:
  "length (str ''**Build Verification:** '' @ check_mark @ str '' All builds successful after fix''
            @ [13, 10, 13, 10] @ str ''---'' @ [13, 10, 13, 10] @ str ''## Key Decisions'') = 84
   \<and> read_text [DOC_FILE_PATH \<mapsto>
          str ''**Build Verification:** '' @ check_mark @ str '' All builds successful after fix''
            @ [13, 10, 13, 10] @ str ''---'' @ [13, 10, 13, 10] @ str ''## Key Decisions'']
        DOC_FILE_PATH = Some ANCHOR
   \<and> files (update_doc_main [DOC_FILE_PATH \<mapsto>
          str ''**Build Verification:** '' @ check_mark @ str '' All builds successful after fix''
            @ [13, 10, 13, 10] @ str ''---'' @ [13, 10, 13, 10] @ str ''## Key Decisions''])
        DOC_FILE_PATH = Some (ANCHOR_HEAD @ PHASE_72_DOC @ ANCHOR_TAIL)
   \<and> length (ANCHOR_HEAD @ PHASE_72_DOC @ ANCHOR_TAIL) = 2094
   \<and> length (ANCHOR_HEAD @ PHASE_72_DOC @ ANCHOR_TAIL) \<noteq> 84 + length PHASE_72_DOC"
proof -
  let ?F = "str ''**Build Verification:** '' @ check_mark @ str '' All builds successful after fix''
            @ [13, 10, 13, 10] @ str ''---'' @ [13, 10, 13, 10] @ str ''## Key Decisions''"
  have l: "length ?F = 84" by (simp add: str_def check_mark_def)
  have r: "read_text [DOC_FILE_PATH \<mapsto> ?F] DOC_FILE_PATH = Some ANCHOR"
    by (simp add: read_text_def ANCHOR_def str_def check_mark_def nl_def)
  have a: "first_at ANCHOR ANCHOR 0" by (simp add: first_at_prefix)
  from update_doc_found [of "[DOC_FILE_PATH \<mapsto> ?F]" ANCHOR 0, OF r a]
  have w: "files (update_doc_main [DOC_FILE_PATH \<mapsto> ?F]) DOC_FILE_PATH
             = Some (ANCHOR_HEAD @ PHASE_72_DOC @ ANCHOR_TAIL)" by simp
  have n: "length (ANCHOR_HEAD @ PHASE_72_DOC @ ANCHOR_TAIL) = 2094"
    by (simp add: length_anchor_head length_anchor_tail length_doc)
  from l r w n show ?thesis by (simp add: length_doc)
qed

text \<open>
  Claim C10, amended. When the insertion anchor is found in the text read from the file
  (the content of the file with its line ends translated), the text written is the text
  read with the documentation block inserted at one offset \<open>k\<close>: everything before \<open>k\<close> and
  everything from \<open>k\<close> on is preserved, no other file is touched, and the new length is
  the length of the text read plus the length of the block. The text read is the content
  of the file itself where the file holds no carriage return.
\<close>

theorem insertion_preserves_content:
  assumes "read_text fs DOC_FILE_PATH = Some C" and "sublist ANCHOR C"
  shows "(\<exists>k\<le>length C.
           files (update_doc_main fs) = fs(DOC_FILE_PATH \<mapsto> take k C @ PHASE_72_DOC @ drop k C)
         \<and> length (take k C @ PHASE_72_DOC @ drop k C) = length C + length PHASE_72_DOC)
       \<and> (\<forall>F. fs DOC_FILE_PATH = Some F \<and> 13 \<notin> set F \<longrightarrow> C = F)"
proof -
  from sublist_first_at [OF assms(2)] obtain i where i: "first_at ANCHOR C i" by blast
  from first_at_split [OF i] have C: "C = take i C @ ANCHOR_HEAD @ ANCHOR_TAIL @ drop (i + length ANCHOR) C"
    by (simp add: anchor_split)
  define pre where "pre = take i C"
  define post where "post = drop (i + length ANCHOR) C"
  from i have li: "i \<le> length C" by (simp add: first_at_def)
  then have lp: "length pre = i" by (simp add: pre_def)
  from C have C': "C = pre @ ANCHOR_HEAD @ ANCHOR_TAIL @ post" by (simp add: pre_def post_def)
  let ?k = "i + length ANCHOR_HEAD"
  have tk: "take ?k C = pre @ ANCHOR_HEAD" by (subst C') (simp add: lp)
  have dk: "drop ?k C = ANCHOR_TAIL @ post" by (subst C') (simp add: lp)
  have "?k \<le> length C" by (subst C') (simp add: lp)
  moreover have "files (update_doc_main fs) = fs(DOC_FILE_PATH \<mapsto> take ?k C @ PHASE_72_DOC @ drop ?k C)"
    using update_doc_found [of fs C i, OF assms(1) i] by (simp add: tk dk pre_def post_def)
  moreover have "length (take ?k C @ PHASE_72_DOC @ drop ?k C) = length C + length PHASE_72_DOC"
    using \<open>?k \<le> length C\<close> by simp
  moreover have "\<forall>F. fs DOC_FILE_PATH = Some F \<and> 13 \<notin> set F \<longrightarrow> C = F"
    using assms(1) by (auto simp: read_text_def universal_newlines_id)
  ultimately show ?thesis by blast
qed

theorem insertion_preserves_content_witness:
  "read_text [DOC_FILE_PATH \<mapsto> ANCHOR] DOC_FILE_PATH = Some ANCHOR \<and> sublist ANCHOR ANCHOR
   \<and> [DOC_FILE_PATH \<mapsto> ANCHOR] DOC_FILE_PATH = Some ANCHOR \<and> 13 \<notin> set ANCHOR
   \<and> (\<exists>k\<le>length ANCHOR.
         files (update_doc_main [DOC_FILE_PATH \<mapsto> ANCHOR])
           = [DOC_FILE_PATH \<mapsto> take k ANCHOR @ PHASE_72_DOC @ drop k ANCHOR]
       \<and> length (take k ANCHOR @ PHASE_72_DOC @ drop k ANCHOR) = length ANCHOR + length PHASE_72_DOC)"
proof -
  have f: "read_text [DOC_FILE_PATH \<mapsto> ANCHOR] DOC_FILE_PATH = Some ANCHOR"
    by (simp add: read_text_written cr_free_doc)
  have a: "sublist ANCHOR ANCHOR" by simp
  from insertion_preserves_content [of "[DOC_FILE_PATH \<mapsto> ANCHOR]" ANCHOR, OF f a] f a cr_free_doc(1)
  show ?thesis by simp
qed

end
